theory Spec2Isabelle
  imports Complex_Main
begin

section \<open>Data model\<close>

text \<open>
  The notebook works on word indices: the tokenizer numbers the words of the lexicon
  from 1, and 0 is the padding value. A story is a Python list of indices, which are
  unbounded integers. The padded training matrix is a numpy array of type int32: a list
  of rows whose entries lie between \<open>-2^31\<close> and \<open>2^31 - 1\<close>. Exceptions of the
  Python code are values of \<open>error\<close>; a computation that may raise returns
  \<open>error + 'a\<close>.
\<close>

type_synonym token = nat
type_synonym int32 = int
type_synonym matrix = "int32 list list"
type_synonym dist = "real list"

datatype error = KeyError | IndexError | NameError | ValueError | OverflowError

section \<open>The padded matrix of stories (cell 10)\<close>

text \<open>
  \<^verbatim>\<open>pad_sequences(train_idxs, maxlen=maxlen)\<close> is called with the defaults of Keras:
  \<^verbatim>\<open>dtype='int32'\<close>, \<^verbatim>\<open>padding='pre'\<close>, \<^verbatim>\<open>truncating='pre'\<close>, \<^verbatim>\<open>value=0\<close>.
  Every row starts as \<open>maxlen\<close> zeros. An empty sequence is skipped. Of any other
  sequence the last \<open>maxlen\<close> entries are kept (\<^verbatim>\<open>s[-maxlen:]\<close>, which for
  \<open>maxlen = 0\<close> is the whole sequence), converted to int32
  (\<^verbatim>\<open>np.asarray(trunc, dtype=dtype)\<close>) and written to the end of the row; when they do
  not fit, which only happens for \<open>maxlen = 0\<close>, the assignment raises ValueError.

  The conversion to int32 goes through the C type \<open>long\<close> of 64 bits: an index from
  \<open>2^63\<close> on raises OverflowError, a smaller one keeps its low 32 bits, read as a
  signed number. So \<open>2^31\<close> becomes \<open>-2^31\<close> and \<open>2^32\<close> becomes 0.
\<close>

definition to_int32 :: "token \<Rightarrow> int32" where
  "to_int32 x = (int x + 2 ^ 31) mod 2 ^ 32 - 2 ^ 31"

definition asarray_int32 :: "token list \<Rightarrow> error + int32 list" where
  "asarray_int32 xs =
     (if \<exists>x \<in> set xs. 2 ^ 63 \<le> x then Inl OverflowError else Inr (map to_int32 xs))"

definition pad_sequence :: "nat \<Rightarrow> token list \<Rightarrow> error + int32 list" where
  "pad_sequence maxlen s =
     (if s = [] then Inr (replicate maxlen 0)
      else
        (case asarray_int32 (if maxlen = 0 then s else drop (length s - maxlen) s) of
           Inl e \<Rightarrow> Inl e
         | Inr trunc \<Rightarrow>
             if maxlen < length trunc then Inl ValueError
             else Inr (replicate (maxlen - length trunc) 0 @ trunc)))"

fun pad_sequences :: "token list list \<Rightarrow> nat \<Rightarrow> error + matrix" where
  "pad_sequences [] maxlen = Inr []"
| "pad_sequences (s # seqs) maxlen =
     (case pad_sequence maxlen s of
        Inl e \<Rightarrow> Inl e
      | Inr r \<Rightarrow>
          (case pad_sequences seqs maxlen of
             Inl e \<Rightarrow> Inl e
           | Inr rows \<Rightarrow> Inr (r # rows)))"

text \<open>
  \<^verbatim>\<open>maxlen = max([len(story) for story in train_idxs])\<close>: Python's \<open>max\<close> of an empty
  list raises ValueError.
\<close>

definition pad_stories :: "token list list \<Rightarrow> error + matrix" where
  "pad_stories train_idxs =
     (if train_idxs = [] then Inl ValueError
      else pad_sequences train_idxs (Max (set (map length train_idxs))))"

text \<open>Removing the padding again: drop the zeros in front of a row.\<close>

definition strip_padding :: "int32 list \<Rightarrow> int32 list" where
  "strip_padding r = dropWhile (\<lambda>x. x = 0) r"

section \<open>Model input and output (cell 12)\<close>

text \<open>
  \<^verbatim>\<open>train_x = train_idxs[:, :-1]\<close> and \<^verbatim>\<open>train_y = train_idxs[:, 1:]\<close>: every row
  without its last column, and every row without its first column. On a row of width 0
  both slices are empty.
\<close>

definition x_row :: "int32 list \<Rightarrow> int32 list" where
  "x_row r = butlast r"

definition y_row :: "int32 list \<Rightarrow> int32 list" where
  "y_row r = tl r"

definition train_x :: "matrix \<Rightarrow> matrix" where
  "train_x train_idxs = map x_row train_idxs"

definition train_y :: "matrix \<Rightarrow> matrix" where
  "train_y train_idxs = map y_row train_idxs"

section \<open>The padding mask of the network (cell 14)\<close>

text \<open>
  \<^verbatim>\<open>create_rnn\<close> builds the network with \<^verbatim>\<open>Embedding(..., mask_zero=True)\<close> as its
  first layer. The layer reads the input matrix (\<open>batch_x\<close>, never the targets)
  and marks as masked every position whose input index is 0; the two GRU layers with
  \<^verbatim>\<open>return_sequences=True\<close> and the TimeDistributed layer hand the mask on unchanged,
  and the loss of \<^verbatim>\<open>train_on_batch\<close> counts a position only where the mask is set.
\<close>

definition compute_mask :: "int32 list \<Rightarrow> bool list" where
  "compute_mask xs = map (\<lambda>x. x \<noteq> 0) xs"

text \<open>
  The positions of a padded row that contribute a term to the loss: the positions \<open>t\<close>
  of the target row at which the mask of the input row is set.
\<close>

definition loss_positions :: "int32 list \<Rightarrow> nat list" where
  "loss_positions r =
     filter (\<lambda>t. compute_mask (x_row r) ! t) [0..<length (y_row r)]"

definition loss_terms :: "int32 list \<Rightarrow> nat" where
  "loss_terms r = length (loss_positions r)"

section \<open>The network (cell 14) and its training (cell 18)\<close>

text \<open>
  The network itself is code of Keras. What the notebook relies on is that the two GRU
  layers are built with \<^verbatim>\<open>stateful=True\<close>: the network keeps a hidden state between
  calls, every call starts from the state the previous call left, and only
  \<^verbatim>\<open>reset_states()\<close> puts back the state the layers are created with. A training
  network is therefore given by that initial state and by \<^verbatim>\<open>train_on_batch\<close>, a
  function of the weights, the hidden state and the batch that returns the loss, the new
  weights and the new hidden state, or raises.

  A loss is a float: either a number or one of NaN, +Inf, -Inf. Whatever is added to a
  non-finite float or divided from it stays non-finite, and the mean of no losses at all
  is NaN. The mean of finite floats is computed in floating point: it is rounded, and it
  is infinite when the sum overflows. That arithmetic is not fixed here: \<open>float_mean\<close>,
  the mean \<^verbatim>\<open>numpy.mean\<close> computes of a non-empty list of finite floats, is a parameter.
\<close>

datatype loss = Finite real | NonFinite

fun finite_value :: "loss \<Rightarrow> real" where
  "finite_value (Finite x) = x"
| "finite_value NonFinite = 0"

definition numpy_mean :: "(real list \<Rightarrow> loss) \<Rightarrow> loss list \<Rightarrow> loss" where
  "numpy_mean float_mean losses =
     (if losses = [] \<or> NonFinite \<in> set losses then NonFinite
      else float_mean (map finite_value losses))"

record ('p, 'h) trainable =
  initial_states :: 'h
  train_on_batch :: "'p \<Rightarrow> 'h \<Rightarrow> matrix \<Rightarrow> matrix \<Rightarrow> error + (loss \<times> 'p \<times> 'h)"

record ('p, 'h) train_state =
  weights :: 'p
  states :: 'h

definition reset_states :: "('p, 'h) trainable \<Rightarrow> ('p, 'h) train_state \<Rightarrow> ('p, 'h) train_state" where
  "reset_states rnn st = st\<lparr>states := initial_states rnn\<rparr>"

text \<open>
  The inner loop of cell 18, \<^verbatim>\<open>for batch_idx in range(0, len(train_stories), batch_size)\<close>,
  from the index \<open>batch_idx\<close> on: slice the batch out of \<open>train_x\<close> and \<open>train_y\<close>,
  train on it, append the loss, reset the hidden state. \<open>n\<close> is
  \<^verbatim>\<open>len(train_stories)\<close>. A step of 0 makes \<open>range\<close> raise ValueError.
\<close>

function train_batches ::
  "('p, 'h) trainable \<Rightarrow> nat \<Rightarrow> nat \<Rightarrow> matrix \<Rightarrow> matrix \<Rightarrow> nat \<Rightarrow>
   ('p, 'h) train_state \<Rightarrow> loss list \<Rightarrow> error + (loss list \<times> ('p, 'h) train_state)" where
  "train_batches rnn batch_size n xs ys batch_idx st losses =
     (if batch_size = 0 then Inl ValueError
      else if n \<le> batch_idx then Inr (losses, st)
      else
        (let batch_x = take batch_size (drop batch_idx xs);
             batch_y = take batch_size (drop batch_idx ys)
         in case train_on_batch rnn (weights st) (states st) batch_x batch_y of
              Inl e \<Rightarrow> Inl e
            | Inr (l, w', h') \<Rightarrow>
                train_batches rnn batch_size n xs ys (batch_idx + batch_size)
                  (reset_states rnn (st\<lparr>weights := w', states := h'\<rparr>)) (losses @ [l])))"
  by pat_completeness auto
termination
  by (relation "measure (\<lambda>(rnn, batch_size, n, xs, ys, batch_idx, st, losses). n - batch_idx)") auto

text \<open>
  One pass of the outer loop: train on all batches and report \<^verbatim>\<open>numpy.mean(losses)\<close>.
  The result is the mean, the list of losses behind it, and the network after the epoch.
\<close>

definition train_epoch ::
  "(real list \<Rightarrow> loss) \<Rightarrow> ('p, 'h) trainable \<Rightarrow> nat \<Rightarrow> nat \<Rightarrow> matrix \<Rightarrow> matrix \<Rightarrow>
   ('p, 'h) train_state \<Rightarrow> error + (loss \<times> loss list \<times> ('p, 'h) train_state)" where
  "train_epoch float_mean rnn batch_size n xs ys st =
     (case train_batches rnn batch_size n xs ys 0 st [] of
        Inl e \<Rightarrow> Inl e
      | Inr (losses, st') \<Rightarrow> Inr (numpy_mean float_mean losses, losses, st'))"

text \<open>\<^verbatim>\<open>for epoch in range(n_epochs)\<close>: the means printed, epoch after epoch.\<close>

fun train ::
  "(real list \<Rightarrow> loss) \<Rightarrow> ('p, 'h) trainable \<Rightarrow> nat \<Rightarrow> nat \<Rightarrow> matrix \<Rightarrow> matrix \<Rightarrow> nat \<Rightarrow>
   ('p, 'h) train_state \<Rightarrow> error + (loss list \<times> ('p, 'h) train_state)" where
  "train float_mean rnn batch_size n xs ys 0 st = Inr ([], st)"
| "train float_mean rnn batch_size n xs ys (Suc n_epochs) st =
     (case train_epoch float_mean rnn batch_size n xs ys st of
        Inl e \<Rightarrow> Inl e
      | Inr (m, losses, st') \<Rightarrow>
          (case train float_mean rnn batch_size n xs ys n_epochs st' of
             Inl e \<Rightarrow> Inl e
           | Inr (ms, st'') \<Rightarrow> Inr (m # ms, st'')))"

section \<open>Generation (cells 24 to 28)\<close>

text \<open>
  The generation network is the same network with batch size 1 and one time step, with
  the trained weights loaded: a function from the hidden state and one word index to
  the distribution over the next word (\<^verbatim>\<open>predict_on_batch(...)[0,-1]\<close>, a vector with
  one probability per index \<open>0 .. lexicon_size\<close>) and the new hidden state.
\<close>

record 'h generator =
  zero_states :: 'h
  predict_on_batch :: "'h \<Rightarrow> token \<Rightarrow> dist \<times> 'h"

text \<open>
  \<^verbatim>\<open>numpy.random.choice(a, p=p)\<close> is code of numpy. It refuses \<open>a \<le> 0\<close>, a vector
  \<open>p\<close> whose length is not \<open>a\<close>, negative entries, and a sum further from 1 than
  its tolerance, each with ValueError. The tolerance is the square root of the machine
  epsilon of the type of \<open>p\<close>; \<open>p_next_word\<close> is a float32 vector, whose epsilon is
  \<open>2^-23\<close>, so the sum \<open>t\<close> is refused when \<open>|t - 1| > sqrt(2^-23)\<close>, that is when
  \<open>(t - 1)^2 > 2^-23\<close>. Otherwise it draws a uniform number \<open>u\<close> in \<open>[0, 1)\<close>, and
  answers the number of entries of the normalised cumulative sum of \<open>p\<close> that are at
  most \<open>u\<close> (\<^verbatim>\<open>cdf.searchsorted(u, side='right')\<close>). Probabilities are exact numbers
  here.
\<close>

fun cumsum_from :: "real \<Rightarrow> real list \<Rightarrow> real list" where
  "cumsum_from acc [] = []"
| "cumsum_from acc (x # xs) = (acc + x) # cumsum_from (acc + x) xs"

definition cumsum :: "real list \<Rightarrow> real list" where
  "cumsum p = cumsum_from 0 p"

definition searchsorted_right :: "real list \<Rightarrow> real \<Rightarrow> nat" where
  "searchsorted_right cdf u = length (takeWhile (\<lambda>c. c \<le> u) cdf)"

definition random_choice :: "real \<Rightarrow> nat \<Rightarrow> dist \<Rightarrow> error + token" where
  "random_choice u a p =
     (if a = 0 \<or> length p \<noteq> a \<or> (\<exists>x \<in> set p. x < 0) \<or> (sum_list p - 1)\<^sup>2 > 1 / 2 ^ 23
      then Inl ValueError
      else Inr (searchsorted_right (map (\<lambda>c. c / sum_list p) (cumsum p)) u))"

text \<open>
  The random source: the \<open>i\<close>-th uniform number drawn is the \<open>i\<close>-th raw 53-bit
  integer of the generator divided by \<open>2^53\<close>, as numpy's \<open>random_sample\<close> computes it.
\<close>

definition random_sample :: "(nat \<Rightarrow> nat) \<Rightarrow> nat \<Rightarrow> real" where
  "random_sample rng i = real (rng i mod 2 ^ 53) / 2 ^ 53"

text \<open>
  The variables of cell 28 that live on from one story to the next: the hidden state of
  the network, \<open>p_next_word\<close> and \<open>next_word\<close> (\<open>None\<close> while the name is not
  bound), and the number of random numbers drawn so far.
\<close>

record 'h gen_state =
  hidden :: 'h
  p_next_word :: "dist option"
  next_word :: "token option"
  draws :: nat

text \<open>
  \<^verbatim>\<open>for step_idx in range(story_idxs.shape[-1]): p_next_word = predict_on_batch(...)\<close>:
  the story is fed word by word. For the empty story the body never runs, so
  \<open>p_next_word\<close> keeps the value it had.
\<close>

fun read_story :: "'h generator \<Rightarrow> 'h gen_state \<Rightarrow> token list \<Rightarrow> 'h gen_state" where
  "read_story g s [] = s"
| "read_story g s (w # ws) =
     (case predict_on_batch g (hidden s) w of
        (p, h') \<Rightarrow> read_story g (s\<lparr>hidden := h', p_next_word := Some p\<rparr>) ws)"

text \<open>
  The loop condition
  \<^verbatim>\<open>not generated_ending or lexicon_lookup[next_word][-1] not in eos_tokens\<close>.
  The lookup table is a dict, so an index without an entry raises KeyError; the last
  character of an empty word raises IndexError.
\<close>

definition continue_sampling ::
  "(token \<rightharpoonup> string) \<Rightarrow> string list \<Rightarrow> 'h gen_state \<Rightarrow> token list \<Rightarrow> error + bool" where
  "continue_sampling lexicon_lookup eos_tokens s generated_ending =
     (if generated_ending = [] then Inr True
      else case next_word s of
             None \<Rightarrow> Inl NameError
           | Some w \<Rightarrow>
               (case lexicon_lookup w of
                  None \<Rightarrow> Inl KeyError
                | Some word \<Rightarrow>
                    if word = [] then Inl IndexError
                    else Inr ([last word] \<notin> set eos_tokens)))"

text \<open>The loop body: draw the next word, append it, feed it to the network.\<close>

definition sample_step ::
  "'h generator \<Rightarrow> (nat \<Rightarrow> nat) \<Rightarrow> 'h gen_state \<Rightarrow> token list \<Rightarrow>
   error + ('h gen_state \<times> token list)" where
  "sample_step g rng s generated_ending =
     (case p_next_word s of
        None \<Rightarrow> Inl NameError
      | Some p \<Rightarrow>
          (case random_choice (random_sample rng (draws s)) (length p) p of
             Inl e \<Rightarrow> Inl e
           | Inr w \<Rightarrow>
               (case predict_on_batch g (hidden s) w of
                  (p', h') \<Rightarrow>
                    Inr (s\<lparr>hidden := h', p_next_word := Some p', next_word := Some w,
                            draws := Suc (draws s)\<rparr>,
                         generated_ending @ [w]))))"

text \<open>
  The \<open>while\<close> loop. Nothing in it bounds the number of rounds, so it is a partial
  function: \<open>None\<close> is the loop that never ends, \<open>Some (Inl e)\<close> the exception
  \<open>e\<close>, \<open>Some (Inr (generated_ending, s))\<close> the normal exit.
\<close>

partial_function (option) sampling_loop ::
  "'h generator \<Rightarrow> (token \<rightharpoonup> string) \<Rightarrow> string list \<Rightarrow> (nat \<Rightarrow> nat) \<Rightarrow>
   'h gen_state \<Rightarrow> token list \<Rightarrow> (error + (token list \<times> 'h gen_state)) option" where
  "sampling_loop g lexicon_lookup eos_tokens rng s generated_ending =
     (case continue_sampling lexicon_lookup eos_tokens s generated_ending of
        Inl e \<Rightarrow> Some (Inl e)
      | Inr again \<Rightarrow>
          if again then
            (case sample_step g rng s generated_ending of
               Inl e \<Rightarrow> Some (Inl e)
             | Inr (s', generated_ending') \<Rightarrow>
                 sampling_loop g lexicon_lookup eos_tokens rng s' generated_ending')
          else Some (Inr (generated_ending, s)))"

text \<open>
  \<^verbatim>\<open>" ".join([lexicon_lookup[word] for word in generated_ending])\<close>: every index is
  looked up, then the words are joined with blanks.
\<close>

fun lookup_all :: "(token \<rightharpoonup> string) \<Rightarrow> token list \<Rightarrow> error + string list" where
  "lookup_all lexicon_lookup [] = Inr []"
| "lookup_all lexicon_lookup (w # ws) =
     (case lexicon_lookup w of
        None \<Rightarrow> Inl KeyError
      | Some word \<Rightarrow>
          (case lookup_all lexicon_lookup ws of
             Inl e \<Rightarrow> Inl e
           | Inr words \<Rightarrow> Inr (word # words)))"

fun join :: "string list \<Rightarrow> string" where
  "join [] = []"
| "join [word] = word"
| "join (word # words) = word @ '' '' @ join words"

definition decode :: "(token \<rightharpoonup> string) \<Rightarrow> token list \<Rightarrow> error + string" where
  "decode lexicon_lookup generated_ending =
     (case lookup_all lexicon_lookup generated_ending of
        Inl e \<Rightarrow> Inl e
      | Inr words \<Rightarrow> Inr (join words))"

text \<open>\<^verbatim>\<open>generation_rnn.reset_states()\<close>: the hidden state the layers are created with.\<close>

definition reset_hidden :: "'h generator \<Rightarrow> 'h gen_state \<Rightarrow> 'h gen_state" where
  "reset_hidden g s = s\<lparr>hidden := zero_states g\<rparr>"

text \<open>
  The body of the loop over the stories, for one story: start an empty ending, read the
  story, sample until the loop ends, reset the hidden state, decode. The result is the
  generated indices with their text, and the variables as the next story finds them.
\<close>

definition generate ::
  "'h generator \<Rightarrow> (token \<rightharpoonup> string) \<Rightarrow> string list \<Rightarrow> (nat \<Rightarrow> nat) \<Rightarrow>
   'h gen_state \<Rightarrow> token list \<Rightarrow> (error + ((token list \<times> string) \<times> 'h gen_state)) option" where
  "generate g lexicon_lookup eos_tokens rng s story_idxs =
     (case sampling_loop g lexicon_lookup eos_tokens rng (read_story g s story_idxs) [] of
        None \<Rightarrow> None
      | Some (Inl e) \<Rightarrow> Some (Inl e)
      | Some (Inr (generated_ending, s')) \<Rightarrow>
          (let s'' = reset_hidden g s'
           in case decode lexicon_lookup generated_ending of
                Inl e \<Rightarrow> Some (Inl e)
              | Inr text \<Rightarrow> Some (Inr ((generated_ending, text), s''))))"

text \<open>The loop over the stories: the endings of all stories, in order.\<close>

fun generate_all ::
  "'h generator \<Rightarrow> (token \<rightharpoonup> string) \<Rightarrow> string list \<Rightarrow> (nat \<Rightarrow> nat) \<Rightarrow>
   'h gen_state \<Rightarrow> token list list \<Rightarrow> (error + ((token list \<times> string) list \<times> 'h gen_state)) option" where
  "generate_all g lexicon_lookup eos_tokens rng s [] = Some (Inr ([], s))"
| "generate_all g lexicon_lookup eos_tokens rng s (story_idxs # rest) =
     (case generate g lexicon_lookup eos_tokens rng s story_idxs of
        None \<Rightarrow> None
      | Some (Inl e) \<Rightarrow> Some (Inl e)
      | Some (Inr (ending, s')) \<Rightarrow>
          (case generate_all g lexicon_lookup eos_tokens rng s' rest of
             None \<Rightarrow> None
           | Some (Inl e) \<Rightarrow> Some (Inl e)
           | Some (Inr (endings, s'')) \<Rightarrow> Some (Inr (ending # endings, s''))))"

text \<open>
  The variables when cell 28 starts on a freshly built network: the hidden state the
  layers are created with, and neither \<open>p_next_word\<close> nor \<open>next_word\<close> bound.
\<close>

definition fresh :: "'h generator \<Rightarrow> 'h gen_state" where
  "fresh g = \<lparr>hidden = zero_states g, p_next_word = None, next_word = None, draws = 0\<rparr>"

text \<open>\<^verbatim>\<open>eos_tokens = [".", "?", "!"]\<close> (cell 24).\<close>

definition eos_tokens :: "string list" where
  "eos_tokens = [''.'', ''?'', ''!'']"

section \<open>Distributions and networks used as examples\<close>

text \<open>A distribution that puts probability 1 on the index \<open>k\<close> and 0 on every other.\<close>

definition point_mass :: "dist \<Rightarrow> token \<Rightarrow> bool" where
  "point_mass p k = (k < length p \<and> p = (replicate (length p) 0)[k := 1])"

text \<open>The lexicon \<open>the, cat, sat, .\<close> numbered from 1, as a lookup table from indices.\<close>

definition vocabulary :: "token \<rightharpoonup> string" where
  "vocabulary = [1 \<mapsto> ''the'', 2 \<mapsto> ''cat'', 3 \<mapsto> ''sat'', 4 \<mapsto> ''.'']"

text \<open>A network without memory that answers every input with the same distribution.\<close>

definition always :: "dist \<Rightarrow> unit generator" where
  "always p = \<lparr>zero_states = (), predict_on_batch = (\<lambda>h w. (p, h))\<rparr>"

text \<open>
  The word of the index \<open>w\<close> ends in one of the end-of-sentence markers: the test
  that makes the sampling loop stop.
\<close>

definition ends_sentence :: "(token \<rightharpoonup> string) \<Rightarrow> string list \<Rightarrow> token \<Rightarrow> bool" where
  "ends_sentence lexicon_lookup eos w =
     (case lexicon_lookup w of
        None \<Rightarrow> False
      | Some word \<Rightarrow> word \<noteq> [] \<and> [last word] \<in> set eos)"

text \<open>The same lexicon with a second sentence end, \<open>!\<close>, as index 5.\<close>

definition vocabulary2 :: "token \<rightharpoonup> string" where
  "vocabulary2 = vocabulary(5 \<mapsto> ''!'')"

text \<open>
  A network without memory whose answer depends on the word it is fed: after \<open>sat\<close>
  and after \<open>.\<close> it is sure of \<open>.\<close>, after every other word of \<open>!\<close>.
\<close>

definition two_endings :: "unit generator" where
  "two_endings =
     \<lparr>zero_states = (),
      predict_on_batch = (\<lambda>h w. (if w = 3 \<or> w = 4 then [0, 0, 0, 0, 1, 0] else [0, 0, 0, 0, 0, 1], h))\<rparr>"

text \<open>
  A network with memory: the hidden state is the sum of the indices fed so far, and the
  answer depends on whether that sum is even.
\<close>

definition parity :: "nat generator" where
  "parity =
     \<lparr>zero_states = 0,
      predict_on_batch = (\<lambda>h w. (if even (h + w) then [0, 0, 0, 0, 1] else [0, 1, 0, 0, 0], h + w))\<rparr>"

text \<open>
  A training network whose loss tells whether it started the batch from its initial
  hidden state: the loss is 0 from the initial state and \<open>c\<close> from any other. Each
  batch adds its number of rows to the hidden state.
\<close>

definition leaky :: "real \<Rightarrow> (nat, nat) trainable" where
  "leaky c =
     \<lparr>initial_states = 0,
      train_on_batch = (\<lambda>w h x y. Inr (Finite (if h = 0 then 0 else c), Suc w, h + length x))\<rparr>"

text \<open>
  A training network that learns: the loss of a batch is the current weights, and the
  new weights are the sum of the indices of the batch. It has no hidden state.
\<close>

definition remembering :: "(int, unit) trainable" where
  "remembering =
     \<lparr>initial_states = (),
      train_on_batch = (\<lambda>w h x y. Inr (Finite (real_of_int w), sum_list (concat x), h))\<rparr>"

text \<open>
  A training network built for batches of \<open>rows\<close> rows, as the stateful network of
  cell 16 is built for 20: a batch with another number of rows raises ValueError.
\<close>

definition strict_rows :: "nat \<Rightarrow> (nat, unit) trainable" where
  "strict_rows rows =
     \<lparr>initial_states = (),
      train_on_batch =
        (\<lambda>w h x y. if length x \<noteq> rows then Inl ValueError else Inr (Finite 1, Suc w, h))\<rparr>"

text \<open>The mean of finite numbers without rounding, as an example of \<open>float_mean\<close>.\<close>

definition exact_mean :: "real list \<Rightarrow> loss" where
  "exact_mean xs = Finite (sum_list xs / real (length xs))"

text \<open>A training network whose loss is NaN on the batch \<open>bad\<close> and 1 on every other.\<close>

definition nan_on :: "matrix \<Rightarrow> (nat, unit) trainable" where
  "nan_on bad =
     \<lparr>initial_states = (),
      train_on_batch = (\<lambda>w h x y. Inr (if x = bad then NonFinite else Finite 1, Suc w, h))\<rparr>"

section \<open>Padding and slicing\<close>

lemma to_int32_small: "x < 2 ^ 31 \<Longrightarrow> to_int32 x = int x"
proof -
  assume "x < 2 ^ 31"
  then have "int x < 2 ^ 31" by (metis of_nat_less_iff of_nat_numeral of_nat_power)
  then have "(int x + 2 ^ 31) mod 2 ^ 32 = int x + 2 ^ 31" by simp
  then show ?thesis by (simp add: to_int32_def)
qed

lemma asarray_int32_small:
  assumes "\<forall>x \<in> set s. x < 2 ^ 31"
  shows "asarray_int32 s = Inr (map int s)"
proof -
  have "\<not> (\<exists>x \<in> set s. 2 ^ 63 \<le> x)"
  proof
    assume "\<exists>x \<in> set s. 2 ^ 63 \<le> x"
    then obtain x where x: "x \<in> set s" "2 ^ 63 \<le> x" by blast
    with assms have "x < 2 ^ 31" by blast
    moreover have "(2::nat) ^ 31 \<le> 2 ^ 63" by simp
    ultimately show False using x(2) by linarith
  qed
  moreover have "map to_int32 s = map int s"
    using assms by (simp add: to_int32_small)
  ultimately show ?thesis by (simp add: asarray_int32_def)
qed

lemma pad_sequence_short:
  assumes "\<forall>x \<in> set s. x < 2 ^ 31" and "length s \<le> W"
  shows "pad_sequence W s = Inr (replicate (W - length s) 0 @ map int s)"
proof (cases "s = []")
  case True
  then show ?thesis by (simp add: pad_sequence_def)
next
  case False
  then have "0 < length s" by simp
  with assms(2) have "W \<noteq> 0" by linarith
  with False assms(2) show ?thesis
    by (simp add: pad_sequence_def asarray_int32_small[OF assms(1)])
qed

lemma dropWhile_replicate_zero:
  "\<forall>x \<in> set s. 0 < x \<Longrightarrow> dropWhile (\<lambda>x. x = 0) (replicate n (0::int) @ map int s) = map int s"
proof (induction n)
  case 0
  have "\<forall>y \<in> set (map int s). y \<noteq> 0" using 0 by auto
  then have "dropWhile (\<lambda>x. x = 0) (map int s) = map int s"
    by (cases "map int s") auto
  then show ?case by simp
next
  case (Suc n)
  then show ?case by simp
qed

text \<open>
  C6, as stated, fails for indices that do not fit the int32 matrix. The story
  \<open>5, 2^32\<close> padded to width 3 is the row \<open>0 5 0\<close>: the second index has become the
  padding value, so stripping the leading zeros gives \<open>5 0\<close> and not the story, and
  the last entry of the row is not the last index of the story.
\<close>

theorem pad_wraps_large_index:
  "pad_sequence 3 [5, 4294967296] = Inr [0, 5, 0]
   \<and> strip_padding [0, 5, 0] = [5, 0]
   \<and> map int [5, 4294967296] = [5, 4294967296]"
proof -
  have w: "to_int32 4294967296 = 0" "to_int32 5 = 5" by (simp_all add: to_int32_def)
  have a: "asarray_int32 [5, 4294967296] = Inr [5, 0]"
    by (simp add: asarray_int32_def w)
  have "replicate (3 - length [5, 0 :: int]) (0 :: int) = [0]" by simp
  then have p: "pad_sequence 3 [5, 4294967296] = Inr [0, 5, 0]"
    by (simp add: pad_sequence_def a)
  have s: "strip_padding [0, 5, 0] = [5, 0]" by (simp add: strip_padding_def)
  from p s show ?thesis by simp
qed

text \<open>
  C6, amended. A sequence of indices between 1 and \<open>2^31 - 1\<close> that fits the width is
  padded without error, and comes back unchanged when the padded row is stripped of its
  leading zeros. The padded row is the zeros followed by the sequence, so its zeros are
  exactly its first \<open>W - L\<close> entries, and the last entry of the row is the last index
  of a non-empty sequence.
\<close>

theorem pad_strip_roundtrip:
  assumes "\<forall>x \<in> set s. 0 < x \<and> x < 2 ^ 31" and "length s \<le> W"
  shows "\<exists>r. pad_sequence W s = Inr r
           \<and> strip_padding r = map int s
           \<and> r = replicate (W - length s) 0 @ map int s
           \<and> (s \<noteq> [] \<longrightarrow> last r = int (last s))
           \<and> (\<forall>i < W. (r ! i = 0) = (i < W - length s))"
proof -
  let ?r = "replicate (W - length s) 0 @ map int s"
  from assms(1) have pos: "\<forall>x \<in> set s. 0 < x" and small: "\<forall>x \<in> set s. x < 2 ^ 31"
    by blast+
  have pad: "pad_sequence W s = Inr ?r"
    using small assms(2) by (rule pad_sequence_short)
  have strip: "strip_padding ?r = map int s"
    using pos by (simp add: strip_padding_def dropWhile_replicate_zero)
  have lst: "s \<noteq> [] \<longrightarrow> last ?r = int (last s)"
    by (simp add: last_map)
  have zeros: "\<forall>i < W. (?r ! i = 0) = (i < W - length s)"
  proof (intro allI impI)
    fix i assume "i < W"
    show "(?r ! i = 0) = (i < W - length s)"
    proof (cases "i < W - length s")
      case True
      then show ?thesis by (simp add: nth_append)
    next
      case False
      with \<open>i < W\<close> assms(2) have in_s: "i - (W - length s) < length s" by arith
      then have "s ! (i - (W - length s)) \<in> set s" by simp
      with pos have "0 < s ! (i - (W - length s))" by blast
      with False in_s show ?thesis by (simp add: nth_append)
    qed
  qed
  from pad strip lst zeros show ?thesis by blast
qed

theorem pad_strip_roundtrip_witness:
  "pad_sequence 5 [3, 1, 2] = Inr [0, 0, 3, 1, 2]
   \<and> strip_padding [0, 0, 3, 1, 2] = map int [3, 1, 2]
   \<and> last [0, 0, 3, 1, 2] = int (last [3, 1, 2])"
proof -
  have ok: "\<forall>x \<in> set [3, 1, 2 :: nat]. 0 < x \<and> x < 2 ^ 31" by simp
  have len: "length [3, 1, 2 :: nat] \<le> 5" by simp
  have two: "replicate (5 - length [3, 1, 2 :: nat]) (0::int) @ map int [3, 1, 2] = [0, 0, 3, 1, 2]"
    by (simp add: numeral_2_eq_2)
  from pad_strip_roundtrip [OF ok len] obtain r where
    r: "pad_sequence 5 [3, 1, 2] = Inr r" "strip_padding r = map int [3, 1, 2]"
       "r = replicate (5 - length [3, 1, 2 :: nat]) 0 @ map int [3, 1, 2]"
       "[3, 1, 2 :: nat] \<noteq> [] \<longrightarrow> last r = int (last [3, 1, 2])"
    by (elim exE conjE)
  from r(3) two have e: "r = [0, 0, 3, 1, 2]" by simp
  from r(1) e have a: "pad_sequence 5 [3, 1, 2] = Inr [0, 0, 3, 1, 2]" by simp
  from r(2) e have b: "strip_padding [0, 0, 3, 1, 2] = map int [3, 1, 2]" by simp
  from r(4) e have c: "last [0, 0, 3, 1, 2] = int (last [3, 1, 2])" by simp
  from a b c show ?thesis by blast
qed

text \<open>
  C7. For a row of width \<open>W \<ge> 1\<close> the input is the columns \<open>0 .. W-2\<close> and the
  target the columns \<open>1 .. W-1\<close>: both have \<open>W - 1\<close> entries, and the target at
  \<open>t\<close> is the input at \<open>t + 1\<close> wherever the input has that position.
\<close>

theorem input_target_offset:
  assumes "length r = W" and "1 \<le> W"
  shows "int (length (x_row r)) = int W - 1
       \<and> int (length (y_row r)) = int W - 1
       \<and> (\<forall>t < W - 1. x_row r ! t = r ! t)
       \<and> (\<forall>t < W - 1. y_row r ! t = r ! (t + 1))
       \<and> (\<forall>t. t + 1 < W - 1 \<longrightarrow> y_row r ! t = x_row r ! (t + 1))"
  using assms by (auto simp: x_row_def y_row_def nth_butlast nth_tl)

theorem input_target_offset_witness:
  "x_row [0, 7, 8, 9] = [0, 7, 8] \<and> y_row [0, 7, 8, 9] = [7, 8, 9]
   \<and> int (length (x_row [0, 7, 8, 9])) = 3 \<and> y_row [0, 7, 8, 9] ! 0 = x_row [0, 7, 8, 9] ! 1"
proof -
  have len: "length [0, 7, 8, 9 :: int] = 4" by simp
  have pos: "1 \<le> (4::nat)" by simp
  show ?thesis
    using input_target_offset [OF len pos] by (simp add: x_row_def y_row_def)
qed

section \<open>The masked loss\<close>

lemma compute_mask_nth: "t < length xs \<Longrightarrow> compute_mask xs ! t = (xs ! t \<noteq> 0)"
  by (simp add: compute_mask_def)

lemma length_x_row_y_row: "length (x_row r) = length (y_row r)"
  by (simp add: x_row_def y_row_def)

lemma loss_positions_iff:
  "t \<in> set (loss_positions r) \<longleftrightarrow> t < length (y_row r) \<and> x_row r ! t \<noteq> 0"
proof -
  have "t < length (y_row r) \<Longrightarrow> compute_mask (x_row r) ! t = (x_row r ! t \<noteq> 0)"
    by (simp add: compute_mask_nth length_x_row_y_row)
  then show ?thesis by (auto simp: loss_positions_def)
qed

lemma count_by_index:
  "length (filter (\<lambda>t. Q (xs ! t)) [0..<length xs]) = length (filter Q xs)"
proof -
  have "filter Q xs = filter Q (map (\<lambda>t. xs ! t) [0..<length xs])"
    by (simp add: map_nth)
  also have "\<dots> = map (\<lambda>t. xs ! t) (filter (\<lambda>t. Q (xs ! t)) [0..<length xs])"
    by (simp add: filter_map comp_def)
  finally show ?thesis by simp
qed

lemma loss_terms_count: "loss_terms r = length (filter (\<lambda>x. x \<noteq> 0) (x_row r))"
proof -
  have "loss_positions r = filter (\<lambda>t. x_row r ! t \<noteq> 0) [0..<length (x_row r)]"
    unfolding loss_positions_def length_x_row_y_row[symmetric]
    by (rule filter_cong) (simp_all add: compute_mask_nth)
  then show ?thesis
    unfolding loss_terms_def using count_by_index[of "\<lambda>x. x \<noteq> 0" "x_row r"] by simp
qed

text \<open>
  C2, as stated, fails. The row \<open>0 0 7\<close> holds one word after its padding. Its
  input is \<open>0 0\<close>, so both positions are masked and the row contributes no term at
  all, although the target at position 1 is the word 7 and not the padding.
\<close>

theorem single_token_row_has_no_loss_term:
  "loss_terms [0, 0, 7] = 0 \<and> y_row [0, 0, 7] ! 1 = 7 \<and> 1 \<notin> set (loss_positions [0, 0, 7])"
proof -
  have a: "loss_terms [0, 0, 7] = 0" by (simp add: loss_terms_count x_row_def)
  have b: "y_row [0, 0, 7] ! 1 = 7" by (simp add: y_row_def)
  have c: "1 \<notin> set (loss_positions [0, 0, 7])" by (simp add: loss_positions_iff x_row_def)
  from a b c show ?thesis by blast
qed

text \<open>
  C2, amended. The mask comes from the input row, not from the target row. A padded row
  with a single word contributes no term to the loss, whatever its width; a row
  contributes as many terms as its input has entries other than 0; and a position of the
  target is counted exactly when the input at that position is not 0.
\<close>

theorem loss_masked_by_input:
  "loss_terms (replicate n 0 @ [x]) = 0
   \<and> loss_terms r = length (filter (\<lambda>x. x \<noteq> 0) (x_row r))
   \<and> (\<forall>t < length (y_row r). (t \<in> set (loss_positions r)) = (x_row r ! t \<noteq> 0))"
proof -
  have "loss_terms (replicate n 0 @ [x]) = 0"
    by (simp add: loss_terms_count x_row_def butlast_append)
  then show ?thesis using loss_terms_count[of r] by (simp add: loss_positions_iff)
qed

text \<open>
  The row \<open>0 0 0 7\<close> has no term; the row \<open>0 5 6 7\<close> has the two terms at the
  positions 1 and 2, where the inputs are 5 and 6, and none at position 0, where the
  target is 5 and the input is the padding.
\<close>

theorem loss_masked_by_input_witness:
  "loss_terms (replicate 3 0 @ [7]) = 0 \<and> loss_terms [0, 5, 6, 7] = 2
   \<and> 0 \<notin> set (loss_positions [0, 5, 6, 7]) \<and> 1 \<in> set (loss_positions [0, 5, 6, 7])
   \<and> 2 \<in> set (loss_positions [0, 5, 6, 7])"
proof -
  note inst = loss_masked_by_input[of 3 7 "[0, 5, 6, 7]"]
  have len: "length (y_row [0, 5, 6, 7]) = 3" by (simp add: y_row_def)
  from inst have a: "loss_terms (replicate 3 0 @ [7]) = 0" by blast
  from inst have b: "loss_terms [0, 5, 6, 7] = 2" by (simp add: x_row_def)
  from inst have all: "\<forall>t < 3. (t \<in> set (loss_positions [0, 5, 6, 7])) = (x_row [0, 5, 6, 7] ! t \<noteq> 0)"
    unfolding len by blast
  from all have c: "0 \<notin> set (loss_positions [0, 5, 6, 7])" by (simp add: x_row_def)
  have "(1::nat) < 3" by simp
  with all have "(1 \<in> set (loss_positions [0, 5, 6, 7])) = (x_row [0, 5, 6, 7] ! 1 \<noteq> 0)" by blast
  then have d: "1 \<in> set (loss_positions [0, 5, 6, 7])" by (simp add: x_row_def)
  have "(2::nat) < 3" by simp
  with all have "(2 \<in> set (loss_positions [0, 5, 6, 7])) = (x_row [0, 5, 6, 7] ! 2 \<noteq> 0)" by blast
  then have e: "2 \<in> set (loss_positions [0, 5, 6, 7])" by (simp add: x_row_def)
  from a b c d e show ?thesis by blast
qed

section \<open>Generation\<close>

lemma sampling_loop_stop:
  "continue_sampling lk eos s gen = Inr False \<Longrightarrow>
   sampling_loop g lk eos rng s gen = Some (Inr (gen, s))"
  by (subst sampling_loop.simps) simp

lemma sampling_loop_step:
  "continue_sampling lk eos s gen = Inr True \<Longrightarrow> sample_step g rng s gen = Inr (s', gen') \<Longrightarrow>
   sampling_loop g lk eos rng s gen = sampling_loop g lk eos rng s' gen'"
  by (subst sampling_loop.simps) simp

lemma sampling_loop_test_error:
  "continue_sampling lk eos s gen = Inl e \<Longrightarrow>
   sampling_loop g lk eos rng s gen = Some (Inl e)"
  by (subst sampling_loop.simps) simp

lemma sampling_loop_step_error:
  "continue_sampling lk eos s gen = Inr True \<Longrightarrow> sample_step g rng s gen = Inl e \<Longrightarrow>
   sampling_loop g lk eos rng s gen = Some (Inl e)"
  by (subst sampling_loop.simps) simp

lemma random_sample_range: "0 \<le> random_sample rng i \<and> random_sample rng i < 1"
proof -
  have "rng i mod 2 ^ 53 < (2::nat) ^ 53" by simp
  then have "real (rng i mod 2 ^ 53) < 2 ^ 53"
    by (metis of_nat_less_iff of_nat_numeral of_nat_power)
  then show ?thesis by (simp add: random_sample_def)
qed

lemma cumsum_from_zeros: "cumsum_from a (replicate n 0) = replicate n a"
  by (induction n) auto

lemma cumsum_from_one_hot:
  "k < n \<Longrightarrow> cumsum_from a ((replicate n 0)[k := 1]) = replicate k a @ replicate (n - k) (a + 1)"
proof (induction n arbitrary: k)
  case 0 then show ?case by simp
next
  case (Suc n)
  show ?case
  proof (cases k)
    case 0
    then show ?thesis by (simp add: cumsum_from_zeros)
  next
    case (Suc j)
    with Suc.prems have "j < n" by simp
    from Suc.IH[OF this] Suc show ?thesis by simp
  qed
qed

lemma sum_list_one_hot: "k < n \<Longrightarrow> sum_list ((replicate n (0::real))[k := 1]) = 1"
proof (induction n arbitrary: k)
  case 0 then show ?case by simp
next
  case (Suc n)
  then show ?case by (cases k) (simp_all add: sum_list_replicate)
qed

lemma random_choice_point_mass:
  assumes "point_mass p k" and "0 \<le> u" and "u < 1"
  shows "random_choice u (length p) p = Inr k"
proof -
  from assms(1) have k: "k < length p" and p: "p = (replicate (length p) 0)[k := 1]"
    by (simp_all add: point_mass_def)
  have s: "sum_list p = 1" by (subst p) (simp add: sum_list_one_hot k)
  have nn: "\<not> (\<exists>x \<in> set p. x < 0)"
  proof
    assume "\<exists>x \<in> set p. x < 0"
    then obtain x where "x \<in> set p" "x < 0" by blast
    then have "x \<in> set ((replicate (length p) 0)[k := 1])" using p by simp
    then have "x \<in> insert 1 (set (replicate (length p) (0::real)))"
      using set_update_subset_insert by fastforce
    with \<open>x < 0\<close> show False by auto
  qed
  have c: "cumsum p = replicate k 0 @ replicate (length p - k) 1"
    unfolding cumsum_def by (subst p) (simp add: cumsum_from_one_hot k)
  have "searchsorted_right (map (\<lambda>c. c / sum_list p) (cumsum p)) u = k"
    using assms(2,3) k by (simp add: s c searchsorted_right_def takeWhile_append map_replicate_const)
  with s nn k show ?thesis by (auto simp: random_choice_def)
qed


lemma read_story_snoc:
  "read_story g s (ws @ [w]) =
     (case predict_on_batch g (hidden (read_story g s ws)) w of
        (p, h') \<Rightarrow> (read_story g s ws)\<lparr>hidden := h', p_next_word := Some p\<rparr>)"
  by (induction ws arbitrary: s) (auto split: prod.splits)

lemma read_story_draws: "draws (read_story g s ws) = draws s"
  by (induction ws arbitrary: s) (auto split: prod.splits)

lemma read_story_next_word: "next_word (read_story g s ws) = next_word s"
  by (induction ws arbitrary: s) (auto split: prod.splits)

lemma read_story_last:
  assumes "story \<noteq> []"
  shows "p_next_word (read_story g s story) =
           Some (fst (predict_on_batch g (hidden (read_story g s (butlast story))) (last story)))"
    and "hidden (read_story g s story) =
           snd (predict_on_batch g (hidden (read_story g s (butlast story))) (last story))"
proof -
  from assms have "story = butlast story @ [last story]" by simp
  then have eq: "read_story g s story = read_story g s (butlast story @ [last story])" by simp
  show "p_next_word (read_story g s story) =
           Some (fst (predict_on_batch g (hidden (read_story g s (butlast story))) (last story)))"
    unfolding eq read_story_snoc by (simp split: prod.splits)
  show "hidden (read_story g s story) =
           snd (predict_on_batch g (hidden (read_story g s (butlast story))) (last story))"
    unfolding eq read_story_snoc by (simp split: prod.splits)
qed

lemmas sampling_loop_induct = sampling_loop.raw_induct [rotated 1, consumes 1, case_names round]

lemma sampling_loop_diverges:
  assumes step: "\<forall>s gen. I s gen \<longrightarrow> continue_sampling lk eos s gen = Inr True
              \<and> (\<exists>s' gen'. sample_step g rng s gen = Inr (s', gen') \<and> I s' gen')"
    and start: "I s gen"
  shows "sampling_loop g lk eos rng s gen = None"
proof (rule ccontr)
  assume "sampling_loop g lk eos rng s gen \<noteq> None"
  then obtain y where y: "sampling_loop g lk eos rng s gen = Some y" by blast
  from y step start show False
  proof (induction rule: sampling_loop_induct)
    case (round loop g lk eos rng s gen y)
    from round.prems have c: "continue_sampling lk eos s gen = Inr True"
      and "\<exists>s' gen'. sample_step g rng s gen = Inr (s', gen') \<and> I s' gen'" by blast+
    then obtain s' gen' where st: "sample_step g rng s gen = Inr (s', gen')" and I': "I s' gen'"
      by blast
    from round.hyps c st have "loop g lk eos rng s' gen' = Some y" by simp
    from round.IH[OF this round.prems(1) I'] show False .
  qed
qed

lemma sample_step_appends:
  "sample_step g rng s gen = Inr (s1, gen1) \<Longrightarrow>
   \<exists>w. gen1 = gen @ [w] \<and> draws s1 = Suc (draws s) \<and> next_word s1 = Some w"
  by (auto simp: sample_step_def split: option.splits sum.splits prod.splits)

lemma continue_True_iff:
  "gen \<noteq> [] \<Longrightarrow> next_word s = Some w \<Longrightarrow> continue_sampling lk eos s gen = Inr True \<Longrightarrow>
   \<not> ends_sentence lk eos w"
  by (auto simp: continue_sampling_def ends_sentence_def split: option.splits if_splits)

lemma continue_False_iff:
  "continue_sampling lk eos s gen = Inr False \<Longrightarrow>
   gen \<noteq> [] \<and> (\<exists>w. next_word s = Some w \<and> ends_sentence lk eos w)"
  by (auto simp: continue_sampling_def ends_sentence_def split: option.splits if_splits)

lemma sampling_loop_trace:
  assumes "sampling_loop g lk eos rng s gen = Some y"
    and "gen \<noteq> [] \<longrightarrow> next_word s = Some (last gen)"
  shows "\<forall>gen' s'. y = Inr (gen', s') \<longrightarrow>
           continue_sampling lk eos s' gen' = Inr False
         \<and> (\<exists>new. gen' = gen @ new \<and> draws s' = draws s + length new
              \<and> (new = [] \<longrightarrow> s' = s)
              \<and> (new \<noteq> [] \<longrightarrow> next_word s' = Some (last new))
              \<and> (gen \<noteq> [] \<and> new \<noteq> [] \<longrightarrow> \<not> ends_sentence lk eos (last gen))
              \<and> (\<forall>w \<in> set (butlast new). \<not> ends_sentence lk eos w))"
  using assms
proof (induction rule: sampling_loop_induct)
  case (round loop g lk eos rng s gen y)
  show ?case
  proof (cases "continue_sampling lk eos s gen")
    case (Inl e)
    with round.hyps have "y = Inl e" by simp
    then show ?thesis by simp
  next
    case (Inr again)
    note test = this
    show ?thesis
    proof (cases again)
      case False
      with test round.hyps have y: "y = Inr (gen, s)" by simp
      have "gen @ [] = gen \<and> draws s = draws s + length ([] :: token list)" by simp
      show ?thesis
      proof (intro allI impI)
        fix gen' s' assume "y = Inr (gen', s')"
        with y have "gen' = gen" "s' = s" by simp_all
        with test False show "continue_sampling lk eos s' gen' = Inr False
            \<and> (\<exists>new. gen' = gen @ new \<and> draws s' = draws s + length new
              \<and> (new = [] \<longrightarrow> s' = s)
              \<and> (new \<noteq> [] \<longrightarrow> next_word s' = Some (last new))
              \<and> (gen \<noteq> [] \<and> new \<noteq> [] \<longrightarrow> \<not> ends_sentence lk eos (last gen))
              \<and> (\<forall>w \<in> set (butlast new). \<not> ends_sentence lk eos w))"
          by (intro conjI exI[of _ "[]"]) simp_all
      qed
    next
      case True
      show ?thesis
      proof (cases "sample_step g rng s gen")
        case (Inl e)
        with test True round.hyps have "y = Inl e" by simp
        then show ?thesis by simp
      next
        case (Inr r)
        obtain s1 gen1 where r: "r = (s1, gen1)" by (cases r)
        with Inr test True round.hyps
        have run: "loop g lk eos rng s1 gen1 = Some y" by simp
        from Inr r obtain w where w: "gen1 = gen @ [w]" "draws s1 = Suc (draws s)"
          "next_word s1 = Some w"
          using sample_step_appends by blast
        then have pre: "gen1 \<noteq> [] \<longrightarrow> next_word s1 = Some (last gen1)" by simp
        note IH = round.IH[OF run pre]
        have old: "gen \<noteq> [] \<longrightarrow> \<not> ends_sentence lk eos (last gen)"
        proof
          assume ne: "gen \<noteq> []"
          with round.prems have nw: "next_word s = Some (last gen)" by simp
          from test True have "continue_sampling lk eos s gen = Inr True" by simp
          from continue_True_iff[OF ne nw this] show "\<not> ends_sentence lk eos (last gen)" .
        qed
        show ?thesis
        proof (intro allI impI)
          fix gen' s' assume y: "y = Inr (gen', s')"
          from IH[rule_format, OF y] obtain new1 where stop: "continue_sampling lk eos s' gen' = Inr False"
            and n: "gen' = gen1 @ new1" "draws s' = draws s1 + length new1"
               "new1 = [] \<longrightarrow> s' = s1" "new1 \<noteq> [] \<longrightarrow> next_word s' = Some (last new1)"
               "gen1 \<noteq> [] \<and> new1 \<noteq> [] \<longrightarrow> \<not> ends_sentence lk eos (last gen1)"
               "\<forall>w \<in> set (butlast new1). \<not> ends_sentence lk eos w"
            by (elim conjE exE)
          let ?new = "w # new1"
          have "gen' = gen @ ?new" using n(1) w(1) by simp
          moreover have "draws s' = draws s + length ?new" using n(2) w(2) by simp
          moreover have "next_word s' = Some (last ?new)"
          proof (cases "new1 = []")
            case True
            with n(3) w(3) show ?thesis by simp
          next
            case False
            with n(4) show ?thesis by simp
          qed
          moreover have "\<forall>x \<in> set (butlast ?new). \<not> ends_sentence lk eos x"
          proof (cases "new1 = []")
            case True
            then show ?thesis by simp
          next
            case False
            with n(5) w(1) have "\<not> ends_sentence lk eos w" by simp
            with n(6) False show ?thesis by simp
          qed
          ultimately show "continue_sampling lk eos s' gen' = Inr False
            \<and> (\<exists>new. gen' = gen @ new \<and> draws s' = draws s + length new
              \<and> (new = [] \<longrightarrow> s' = s)
              \<and> (new \<noteq> [] \<longrightarrow> next_word s' = Some (last new))
              \<and> (gen \<noteq> [] \<and> new \<noteq> [] \<longrightarrow> \<not> ends_sentence lk eos (last gen))
              \<and> (\<forall>w \<in> set (butlast new). \<not> ends_sentence lk eos w))"
            using stop old by (intro conjI exI[of _ ?new]) simp_all
        qed
      qed
    qed
  qed
qed

lemma generate_Some_Inr:
  assumes "generate g lk eos rng s story = Some (Inr ((gen, text), s'))"
  shows "\<exists>s1. sampling_loop g lk eos rng (read_story g s story) [] = Some (Inr (gen, s1))
            \<and> s' = reset_hidden g s1 \<and> decode lk gen = Inr text"
proof (cases "sampling_loop g lk eos rng (read_story g s story) []")
  case None
  with assms show ?thesis by (simp add: generate_def)
next
  case (Some r)
  show ?thesis
  proof (cases r)
    case (Inl e)
    with Some assms show ?thesis by (simp add: generate_def)
  next
    case (Inr v)
    obtain gen1 s1 where v: "v = (gen1, s1)" by (cases v)
    show ?thesis
    proof (cases "decode lk gen1")
      case (Inl e)
      with Some Inr v assms show ?thesis by (simp add: generate_def)
    next
      case (Inr t)
      with Some \<open>r = Inr v\<close> v assms show ?thesis by (simp add: generate_def)
    qed
  qed
qed

lemma generate_returns:
  assumes "generate g lk eos rng s story = Some (Inr ((gen, text), s'))"
  shows "gen \<noteq> [] \<and> draws s' = draws s + length gen
       \<and> ends_sentence lk eos (last gen)
       \<and> (\<forall>w \<in> set (butlast gen). \<not> ends_sentence lk eos w)"
proof -
  from generate_Some_Inr[OF assms] obtain s1 where
    run: "sampling_loop g lk eos rng (read_story g s story) [] = Some (Inr (gen, s1))"
    and s': "s' = reset_hidden g s1"
    by (elim exE conjE)
  have "[] \<noteq> [] \<longrightarrow> next_word (read_story g s story) = Some (last ([] :: token list))" by simp
  from sampling_loop_trace[OF run this, rule_format, OF refl] obtain new where
    stop: "continue_sampling lk eos s1 gen = Inr False"
    and n: "gen = [] @ new" "draws s1 = draws (read_story g s story) + length new"
      "new \<noteq> [] \<longrightarrow> next_word s1 = Some (last new)"
      "\<forall>w \<in> set (butlast new). \<not> ends_sentence lk eos w"
    by (elim exE conjE)
  from n(1) have gn: "new = gen" by simp
  from continue_False_iff[OF stop] obtain w where ne: "gen \<noteq> []"
    and w: "next_word s1 = Some w" "ends_sentence lk eos w" by (elim exE conjE)
  from ne n(3) gn w(1) have "w = last gen" by simp
  with w(2) have e: "ends_sentence lk eos (last gen)" by simp
  have d: "draws s' = draws s + length gen"
    using n(2) gn s' by (simp add: read_story_draws reset_hidden_def)
  from ne d e n(4) gn show ?thesis by simp
qed

lemma generate_diverges:
  assumes "story \<noteq> []"
    and pm: "\<forall>h w. point_mass (fst (predict_on_batch g h w)) k"
    and "lk k = Some word" and "word \<noteq> []" and "[last word] \<notin> set eos"
  shows "generate g lk eos rng s story = None"
proof -
  define I where "I = (\<lambda>(s :: 'a gen_state) (gen :: token list).
     (\<exists>p. p_next_word s = Some p \<and> point_mass p k) \<and> (gen = [] \<or> next_word s = Some k))"
  have step: "\<forall>s gen. I s gen \<longrightarrow> continue_sampling lk eos s gen = Inr True
              \<and> (\<exists>s' gen'. sample_step g rng s gen = Inr (s', gen') \<and> I s' gen')"
  proof (intro allI impI)
    fix s :: "'a gen_state" and gen :: "token list"
    assume "I s gen"
    then obtain p where p: "p_next_word s = Some p" "point_mass p k"
      and nw: "gen = [] \<or> next_word s = Some k" by (auto simp: I_def)
    have c: "continue_sampling lk eos s gen = Inr True"
      using nw assms(3,4,5) by (auto simp: continue_sampling_def)
    have r: "0 \<le> random_sample rng (draws s)" "random_sample rng (draws s) < 1"
      using random_sample_range by simp_all
    have ch: "random_choice (random_sample rng (draws s)) (length p) p = Inr k"
      using p(2) r by (rule random_choice_point_mass)
    obtain p' h' where pr: "predict_on_batch g (hidden s) k = (p', h')"
      by (cases "predict_on_batch g (hidden s) k")
    from pm have "point_mass (fst (predict_on_batch g (hidden s) k)) k" by simp
    with pr have "point_mass p' k" by simp
    then have "\<exists>s' gen'. sample_step g rng s gen = Inr (s', gen') \<and> I s' gen'"
      by (simp add: sample_step_def p ch pr I_def)
    with c show "continue_sampling lk eos s gen = Inr True
              \<and> (\<exists>s' gen'. sample_step g rng s gen = Inr (s', gen') \<and> I s' gen')" by simp
  qed
  have "I (read_story g s story) []"
    using read_story_last(1)[OF assms(1), of g s] pm by (simp add: I_def)
  from sampling_loop_diverges[OF step this] show ?thesis by (simp add: generate_def)
qed

lemma generate_point_mass_eos:
  assumes "p_next_word (read_story g s story) = Some p" and "point_mass p k"
    and "lk k = Some word" and "word \<noteq> []" and "[last word] \<in> set eos"
  shows "generate g lk eos rng s story =
           Some (Inr (([k], word),
             reset_hidden g ((read_story g s story)
               \<lparr>hidden := snd (predict_on_batch g (hidden (read_story g s story)) k),
                p_next_word := Some (fst (predict_on_batch g (hidden (read_story g s story)) k)),
                next_word := Some k, draws := Suc (draws s)\<rparr>)))"
proof -
  let ?s1 = "read_story g s story"
  have r: "0 \<le> random_sample rng (draws ?s1)" "random_sample rng (draws ?s1) < 1"
    using random_sample_range by simp_all
  have ch: "random_choice (random_sample rng (draws ?s1)) (length p) p = Inr k"
    using assms(2) r by (rule random_choice_point_mass)
  let ?s2 = "?s1\<lparr>hidden := snd (predict_on_batch g (hidden ?s1) k),
                  p_next_word := Some (fst (predict_on_batch g (hidden ?s1) k)),
                  next_word := Some k, draws := Suc (draws ?s1)\<rparr>"
  have st: "sample_step g rng ?s1 [] = Inr (?s2, [k])"
    by (simp add: sample_step_def assms(1) ch split: prod.splits)
  have c0: "continue_sampling lk eos ?s1 [] = Inr True"
    by (simp add: continue_sampling_def)
  have c1: "continue_sampling lk eos ?s2 [k] = Inr False"
    using assms(3,4,5) by (simp add: continue_sampling_def)
  have "sampling_loop g lk eos rng ?s1 [] = Some (Inr ([k], ?s2))"
    using sampling_loop_step[OF c0 st] sampling_loop_stop[OF c1] by simp
  then show ?thesis
    using assms(3) by (simp add: generate_def decode_def read_story_draws)
qed

lemma point_mass_4_of_5: "point_mass [0, 0, 0, 0, 1] 4"
  by (simp add: point_mass_def numeral_eq_Suc)

lemma point_mass_1_of_5: "point_mass [0, 1, 0, 0, 0] 1"
  by (simp add: point_mass_def numeral_eq_Suc)

lemma point_mass_4_of_6: "point_mass [0, 0, 0, 0, 1, 0] 4"
  by (simp add: point_mass_def numeral_eq_Suc)

lemma point_mass_5_of_6: "point_mass [0, 0, 0, 0, 0, 1] 5"
  by (simp add: point_mass_def numeral_eq_Suc)

text \<open>
  C4. The story is not empty and the distribution the network answers to its last word
  (from the hidden state the words before it left) puts probability 1 on an index whose
  word ends in an end-of-sentence marker. Then, whatever the random source, the ending
  is that one index: one number is drawn, the loop stops after its first round, the
  hidden state is reset, and the text is the word.
\<close>

theorem forced_eos_one_step:
  assumes "story \<noteq> []"
    and "point_mass (fst (predict_on_batch g (hidden (read_story g s (butlast story))) (last story))) k"
    and "lk k = Some word" and "word \<noteq> []" and "[last word] \<in> set eos"
  shows "\<exists>s'. generate g lk eos rng s story = Some (Inr (([k], word), s'))
            \<and> draws s' = Suc (draws s) \<and> hidden s' = zero_states g"
proof -
  have p: "p_next_word (read_story g s story) =
      Some (fst (predict_on_batch g (hidden (read_story g s (butlast story))) (last story)))"
    using assms(1) by (rule read_story_last)
  from generate_point_mass_eos[where lk = lk, OF p assms(2,3,4,5)] show ?thesis
    by (simp add: reset_hidden_def)
qed

theorem forced_eos_one_step_witness:
  "\<exists>s'. generate (always [0, 0, 0, 0, 1]) vocabulary eos_tokens (\<lambda>i. i)
          (fresh (always [0, 0, 0, 0, 1])) [1, 2, 3] = Some (Inr (([4], ''.''), s'))
        \<and> draws s' = 1"
proof -
  have a: "[1, 2, 3 :: nat] \<noteq> []" by simp
  have b: "point_mass (fst (predict_on_batch (always [0, 0, 0, 0, 1])
      (hidden (read_story (always [0, 0, 0, 0, 1]) (fresh (always [0, 0, 0, 0, 1])) (butlast [1, 2, 3])))
      (last [1, 2, 3]))) 4"
    using point_mass_4_of_5 by (simp add: always_def)
  have c: "vocabulary 4 = Some ''.''" by (simp add: vocabulary_def)
  have d: "''.'' \<noteq> []" by simp
  have e: "[last ''.''] \<in> set eos_tokens" by (simp add: eos_tokens_def)
  from forced_eos_one_step[where lk = vocabulary and rng = "\<lambda>i. i", OF a b c d e] show ?thesis
    by (simp add: fresh_def)
qed

text \<open>
  C1, as stated, fails: the loop has no bound on its rounds. With the lexicon
  \<open>the, cat, sat, .\<close> and a network that is always sure of \<open>the\<close>, the ending of
  the story \<open>the cat sat\<close> is never finished.
\<close>

theorem sampling_without_eos_never_ends:
  "generate (always [0, 1, 0, 0, 0]) vocabulary eos_tokens (\<lambda>i. i)
     (fresh (always [0, 1, 0, 0, 0])) [1, 2, 3] = None"
proof (rule generate_diverges)
  show "[1, 2, 3 :: nat] \<noteq> []" by simp
  show "\<forall>h w. point_mass (fst (predict_on_batch (always [0, 1, 0, 0, 0]) h w)) 1"
    using point_mass_1_of_5 by (simp add: always_def)
  show "vocabulary 1 = Some ''the''" by (simp add: vocabulary_def)
  show "''the'' \<noteq> []" by simp
  show "[last ''the''] \<notin> set eos_tokens" by (simp add: eos_tokens_def)
qed

text \<open>
  C1, amended. The generation has no cap on its sampling steps. If the network is always
  sure of one word and that word does not end a sentence, the generation for a
  non-empty story does not return, whatever the random source. If a generation returns
  an ending, then it drew exactly one random number for each index of the ending, the
  ending is not empty, its last word ends a sentence and none of the words before it
  does: the sampling stops at the first word that ends a sentence and nowhere else.
\<close>

theorem generation_has_no_step_cap:
  "(story \<noteq> [] \<and> (\<forall>h w. point_mass (fst (predict_on_batch g h w)) k)
      \<and> lk k = Some word \<and> word \<noteq> [] \<and> [last word] \<notin> set eos
    \<longrightarrow> generate g lk eos rng s story = None)
 \<and> (generate g' lk' eos' rng' s' story' = Some (Inr ((gen, ending), s''))
    \<longrightarrow> gen \<noteq> [] \<and> draws s'' = draws s' + length gen
      \<and> ends_sentence lk' eos' (last gen)
      \<and> (\<forall>w \<in> set (butlast gen). \<not> ends_sentence lk' eos' w))"
  using generate_diverges[of story g k lk word eos rng s]
    generate_returns[of g' lk' eos' rng' s' story' gen ending s''] by blast

text \<open>
  Both halves on the lexicon \<open>the, cat, sat, .\<close>: a network always sure of \<open>the\<close>
  never finishes, a network always sure of \<open>.\<close> finishes after one draw.
\<close>

theorem generation_has_no_step_cap_witness:
  "generate (always [0, 1, 0, 0, 0]) vocabulary eos_tokens (\<lambda>i. 7 * i)
      (fresh (always [0, 1, 0, 0, 0])) [2] = None
   \<and> generate (always [0, 0, 0, 0, 1]) vocabulary eos_tokens (\<lambda>i. 7 * i)
      (fresh (always [0, 0, 0, 0, 1])) [2]
       = Some (Inr (([4], ''.''),
           \<lparr>hidden = (), p_next_word = Some [0, 0, 0, 0, 1], next_word = Some 4, draws = 1\<rparr>))
   \<and> ends_sentence vocabulary eos_tokens 4"
proof -
  let ?never = "always [0, 1, 0, 0, 0]" and ?sure = "always [0, 0, 0, 0, 1]"
  let ?end = "\<lparr>hidden = (), p_next_word = Some [0, 0, 0, 0, 1], next_word = Some 4, draws = 1\<rparr>"
  have a: "[2 :: nat] \<noteq> [] \<and> (\<forall>h w. point_mass (fst (predict_on_batch ?never h w)) 1)
      \<and> vocabulary 1 = Some ''the'' \<and> ''the'' \<noteq> [] \<and> [last ''the''] \<notin> set eos_tokens"
    using point_mass_1_of_5 by (simp add: always_def vocabulary_def eos_tokens_def)
  have p: "p_next_word (read_story ?sure (fresh ?sure) [2]) = Some [0, 0, 0, 0, 1]"
    by (simp add: always_def fresh_def)
  have v: "vocabulary 4 = Some ''.''" by (simp add: vocabulary_def)
  have e: "[last ''.''] \<in> set eos_tokens" by (simp add: eos_tokens_def)
  have b: "generate ?sure vocabulary eos_tokens (\<lambda>i. 7 * i) (fresh ?sure) [2]
         = Some (Inr (([4], ''.''), ?end))"
    using generate_point_mass_eos[where lk = vocabulary and rng = "\<lambda>i. 7 * i",
        OF p point_mass_4_of_5 v _ e]
    by (simp add: always_def fresh_def reset_hidden_def)
  note inst = generation_has_no_step_cap[of "[2]" ?never 1 vocabulary "''the''" eos_tokens
      "\<lambda>i. 7 * i" "fresh ?never" ?sure vocabulary eos_tokens "\<lambda>i. 7 * i" "fresh ?sure" "[2]"
      "[4]" "''.''" ?end]
  from inst a have n: "generate ?never vocabulary eos_tokens (\<lambda>i. 7 * i) (fresh ?never) [2] = None"
    by blast
  from inst b have "ends_sentence vocabulary eos_tokens (last [4])" by blast
  then have "ends_sentence vocabulary eos_tokens 4" by simp
  with n b show ?thesis by blast
qed

text \<open>
  C9, on the code. The loop that reads the story is the only place where \<open>p_next_word\<close>
  is set before the sampling starts, and for the empty story it does not run. On a fresh
  network the first draw then finds the name unbound and raises NameError. After another
  story it finds the distribution that story left behind, the answer to its last sampled
  word, although the hidden state was reset: after the story \<open>sat\<close> the empty story
  gets the ending \<open>.\<close>, after the story \<open>cat\<close> it gets \<open>!\<close>.
\<close>

theorem empty_story_samples_stale_distribution:
  "generate two_endings vocabulary2 eos_tokens (\<lambda>i. i) (fresh two_endings) []
     = Some (Inl NameError)
   \<and> map_option (map_sum id fst)
       (generate_all two_endings vocabulary2 eos_tokens (\<lambda>i. i) (fresh two_endings) [[3], []])
     = Some (Inr [([4], ''.''), ([4], ''.'')])
   \<and> map_option (map_sum id fst)
       (generate_all two_endings vocabulary2 eos_tokens (\<lambda>i. i) (fresh two_endings) [[2], []])
     = Some (Inr [([5], ''!''), ([5], ''!'')])"
proof -
  let ?g = two_endings and ?r = "\<lambda>i :: nat. i"
  have c0: "continue_sampling vocabulary2 eos_tokens (fresh ?g) [] = Inr True"
    by (simp add: continue_sampling_def)
  have s0: "sample_step ?g ?r (fresh ?g) [] = Inl NameError"
    by (simp add: sample_step_def fresh_def)
  have first: "generate ?g vocabulary2 eos_tokens ?r (fresh ?g) [] = Some (Inl NameError)"
    using sampling_loop_step_error[OF c0 s0] by (simp add: generate_def)
  have v4: "vocabulary2 4 = Some ''.''" and v5: "vocabulary2 5 = Some ''!''"
    by (simp_all add: vocabulary2_def vocabulary_def)
  have e4: "[last ''.''] \<in> set eos_tokens" and e5: "[last ''!''] \<in> set eos_tokens"
    by (simp_all add: eos_tokens_def)
  let ?s4 = "\<lparr>hidden = (), p_next_word = Some [0, 0, 0, 0, 1, 0], next_word = Some 4, draws = Suc 0\<rparr>"
  let ?s5 = "\<lparr>hidden = (), p_next_word = Some [0, 0, 0, 0, 0, 1], next_word = Some 5, draws = Suc 0\<rparr>"
  have p1: "p_next_word (read_story ?g (fresh ?g) [3]) = Some [0, 0, 0, 0, 1, 0]"
    by (simp add: two_endings_def fresh_def)
  have g1: "generate ?g vocabulary2 eos_tokens ?r (fresh ?g) [3] = Some (Inr (([4], ''.''), ?s4))"
    using generate_point_mass_eos[where lk = vocabulary2 and rng = ?r, OF p1 point_mass_4_of_6 v4 _ e4]
    by (simp add: two_endings_def fresh_def reset_hidden_def)
  have p1': "p_next_word (read_story ?g ?s4 []) = Some [0, 0, 0, 0, 1, 0]" by simp
  have g1': "generate ?g vocabulary2 eos_tokens ?r ?s4 []
      = Some (Inr (([4], ''.''), ?s4\<lparr>draws := 2\<rparr>))"
    using generate_point_mass_eos[where lk = vocabulary2 and rng = ?r, OF p1' point_mass_4_of_6 v4 _ e4]
    by (simp add: two_endings_def reset_hidden_def)
  have p2: "p_next_word (read_story ?g (fresh ?g) [2]) = Some [0, 0, 0, 0, 0, 1]"
    by (simp add: two_endings_def fresh_def)
  have g2: "generate ?g vocabulary2 eos_tokens ?r (fresh ?g) [2] = Some (Inr (([5], ''!''), ?s5))"
    using generate_point_mass_eos[where lk = vocabulary2 and rng = ?r, OF p2 point_mass_5_of_6 v5 _ e5]
    by (simp add: two_endings_def fresh_def reset_hidden_def)
  have p2': "p_next_word (read_story ?g ?s5 []) = Some [0, 0, 0, 0, 0, 1]" by simp
  have g2': "generate ?g vocabulary2 eos_tokens ?r ?s5 []
      = Some (Inr (([5], ''!''), ?s5\<lparr>draws := 2\<rparr>))"
    using generate_point_mass_eos[where lk = vocabulary2 and rng = ?r, OF p2' point_mass_5_of_6 v5 _ e5]
    by (simp add: two_endings_def reset_hidden_def)
  have all1: "map_option (map_sum id fst)
       (generate_all ?g vocabulary2 eos_tokens ?r (fresh ?g) [[3], []])
     = Some (Inr [([4], ''.''), ([4], ''.'')])"
    by (simp add: g1 g1')
  have all2: "map_option (map_sum id fst)
       (generate_all ?g vocabulary2 eos_tokens ?r (fresh ?g) [[2], []])
     = Some (Inr [([5], ''!''), ([5], ''!'')])"
    by (simp add: g2 g2')
  from first all1 all2 show ?thesis by blast
qed

lemma lookup_all_absent:
  "w \<in> set ws \<Longrightarrow> lk w = None \<Longrightarrow> lookup_all lk ws = Inl KeyError"
proof (induction ws)
  case Nil
  then show ?case by simp
next
  case (Cons x xs)
  show ?case
  proof (cases "lk x")
    case None
    then show ?thesis by simp
  next
    case (Some word)
    with Cons.prems have "w \<in> set xs" by auto
    with Cons.IH Cons.prems(2) have "lookup_all lk xs = Inl KeyError" by simp
    with Some show ?thesis by simp
  qed
qed

lemma continue_absent:
  "gen \<noteq> [] \<Longrightarrow> next_word s = Some w \<Longrightarrow> lk w = None \<Longrightarrow>
   continue_sampling lk eos s gen = Inl KeyError"
  by (simp add: continue_sampling_def)

lemma generate_samples_absent:
  assumes "p_next_word (read_story g s story) = Some p"
    and "random_choice (random_sample rng (draws s)) (length p) p = Inr w"
    and "lk w = None"
  shows "generate g lk eos rng s story = Some (Inl KeyError)"
proof -
  let ?s1 = "read_story g s story"
  let ?s2 = "?s1\<lparr>hidden := snd (predict_on_batch g (hidden ?s1) w),
                  p_next_word := Some (fst (predict_on_batch g (hidden ?s1) w)),
                  next_word := Some w, draws := Suc (draws ?s1)\<rparr>"
  have c0: "continue_sampling lk eos ?s1 [] = Inr True"
    by (simp add: continue_sampling_def)
  have st: "sample_step g rng ?s1 [] = Inr (?s2, [w])"
    using assms(1,2) by (simp add: sample_step_def read_story_draws split: prod.splits)
  have c1: "continue_sampling lk eos ?s2 [w] = Inl KeyError"
    using assms(3) by (simp add: continue_absent)
  have "sampling_loop g lk eos rng ?s1 [] = Some (Inl KeyError)"
    using sampling_loop_step[OF c0 st] sampling_loop_test_error[OF c1] by simp
  then show ?thesis by (simp add: generate_def)
qed

text \<open>
  C10. An index without an entry in the lookup table raises KeyError wherever it is
  decoded: when the ending is turned into text, and in the loop condition right after
  the index was drawn. In particular, when the draw yields index 0, which the table
  does not hold, the generation of that story ends with KeyError and yields no ending.
\<close>

theorem absent_index_raises_KeyError:
  "(w \<in> set ws \<and> lk w = None \<longrightarrow> decode lk ws = Inl KeyError)
 \<and> (gen \<noteq> [] \<and> next_word s = Some w \<and> lk w = None
      \<longrightarrow> sampling_loop g lk eos rng s gen = Some (Inl KeyError))
 \<and> (p_next_word (read_story g s0 story) = Some p
      \<and> random_choice (random_sample rng (draws s0)) (length p) p = Inr 0 \<and> lk 0 = None
      \<longrightarrow> generate g lk eos rng s0 story = Some (Inl KeyError))"
proof (intro conjI impI)
  assume "w \<in> set ws \<and> lk w = None"
  then have "lookup_all lk ws = Inl KeyError" using lookup_all_absent[of w ws lk] by simp
  then show "decode lk ws = Inl KeyError" by (simp add: decode_def)
next
  assume "gen \<noteq> [] \<and> next_word s = Some w \<and> lk w = None"
  then have "continue_sampling lk eos s gen = Inl KeyError" by (simp add: continue_absent)
  then show "sampling_loop g lk eos rng s gen = Some (Inl KeyError)"
    by (rule sampling_loop_test_error)
next
  assume "p_next_word (read_story g s0 story) = Some p
      \<and> random_choice (random_sample rng (draws s0)) (length p) p = Inr 0 \<and> lk 0 = None"
  then show "generate g lk eos rng s0 story = Some (Inl KeyError)"
    using generate_samples_absent[of g s0 story p rng 0 lk eos] by simp
qed

text \<open>
  A network that puts all probability on index 0: the draw yields 0, and the lookup
  table of the lexicon \<open>the, cat, sat, .\<close> has no entry for it.
\<close>

theorem absent_index_raises_KeyError_witness:
  "decode vocabulary [4, 0] = Inl KeyError
   \<and> sampling_loop (always [1, 0, 0, 0, 0]) vocabulary eos_tokens (\<lambda>i. i)
        \<lparr>hidden = (), p_next_word = None, next_word = Some 0, draws = 0\<rparr> [0]
      = Some (Inl KeyError)
   \<and> random_choice (random_sample (\<lambda>i. i) 0) 5 [1, 0, 0, 0, 0] = Inr 0
   \<and> generate (always [1, 0, 0, 0, 0]) vocabulary eos_tokens (\<lambda>i. i)
        (fresh (always [1, 0, 0, 0, 0])) [1, 2, 3] = Some (Inl KeyError)"
proof -
  let ?g = "always [1, 0, 0, 0, 0]"
  let ?s = "\<lparr>hidden = (), p_next_word = None, next_word = Some (0::nat), draws = 0\<rparr>"
  have v: "vocabulary 0 = None" by (simp add: vocabulary_def)
  have a: "(0::nat) \<in> set [4, 0] \<and> vocabulary 0 = None" using v by simp
  have b: "[0::nat] \<noteq> [] \<and> next_word ?s = Some 0 \<and> vocabulary 0 = None" using v by simp
  have ch: "random_choice (random_sample (\<lambda>i. i) 0) 5 [1, 0, 0, 0, 0] = Inr 0"
    by (simp add: random_choice_def random_sample_def cumsum_def searchsorted_right_def)
  have ch': "random_choice (random_sample (\<lambda>i. i) 0) (length [1, 0, 0, 0, 0 :: real])
      [1, 0, 0, 0, 0] = Inr 0"
    by (simp add: random_choice_def random_sample_def cumsum_def searchsorted_right_def)
  have c: "p_next_word (read_story ?g (fresh ?g) [1, 2, 3]) = Some [1, 0, 0, 0, 0]
      \<and> random_choice (random_sample (\<lambda>i. i) (draws (fresh ?g))) (length [1, 0, 0, 0, 0 :: real])
           [1, 0, 0, 0, 0] = Inr 0 \<and> vocabulary 0 = None"
    using ch' v by (simp add: always_def fresh_def)
  note inst = absent_index_raises_KeyError[of 0 "[4, 0]" vocabulary "[0]" ?s ?g eos_tokens
      "\<lambda>i. i" "fresh ?g" "[1, 2, 3]" "[1, 0, 0, 0, 0]"]
  from inst a have r1: "decode vocabulary [4, 0] = Inl KeyError" by blast
  from inst b have r2: "sampling_loop ?g vocabulary eos_tokens (\<lambda>i. i) ?s [0] = Some (Inl KeyError)"
    by blast
  from inst c have r3: "generate ?g vocabulary eos_tokens (\<lambda>i. i) (fresh ?g) [1, 2, 3]
      = Some (Inl KeyError)" by blast
  from r1 r2 ch r3 show ?thesis by blast
qed

lemma read_story_hidden_only:
  "hidden s1 = hidden s2 \<Longrightarrow>
   hidden (read_story g s1 B) = hidden (read_story g s2 B)
   \<and> (B \<noteq> [] \<longrightarrow> p_next_word (read_story g s1 B) = p_next_word (read_story g s2 B))"
proof (induction B arbitrary: s1 s2)
  case Nil
  then show ?case by simp
next
  case (Cons w ws)
  obtain p h' where pr: "predict_on_batch g (hidden s2) w = (p, h')"
    by (cases "predict_on_batch g (hidden s2) w")
  let ?t1 = "s1\<lparr>hidden := h', p_next_word := Some p\<rparr>"
  let ?t2 = "s2\<lparr>hidden := h', p_next_word := Some p\<rparr>"
  have "hidden ?t1 = hidden ?t2" by simp
  from Cons.IH[OF this] have IH: "hidden (read_story g ?t1 ws) = hidden (read_story g ?t2 ws)"
    "ws \<noteq> [] \<longrightarrow> p_next_word (read_story g ?t1 ws) = p_next_word (read_story g ?t2 ws)"
    by simp_all
  have r1: "read_story g s1 (w # ws) = read_story g ?t1 ws" using Cons.prems pr by simp
  have r2: "read_story g s2 (w # ws) = read_story g ?t2 ws" using pr by simp
  show ?case
  proof (cases "ws = []")
    case True
    then show ?thesis unfolding r1 r2 by simp
  next
    case False
    with IH show ?thesis unfolding r1 r2 by simp
  qed
qed

text \<open>
  C8. Reading a story \<open>B\<close> after any story \<open>A\<close> and a reset leaves the network
  in the same hidden state, and with the same distribution for the next word, as reading
  \<open>B\<close> on a freshly built network: what \<open>A\<close> was does not matter.
\<close>

theorem state_isolation:
  "hidden (read_story g (reset_hidden g (read_story g s A)) B)
     = hidden (read_story g (fresh g) B)
   \<and> (B \<noteq> [] \<longrightarrow>
        p_next_word (read_story g (reset_hidden g (read_story g s A)) B)
          = p_next_word (read_story g (fresh g) B))"
proof -
  have "hidden (reset_hidden g (read_story g s A)) = hidden (fresh g)"
    by (simp add: reset_hidden_def fresh_def)
  then show ?thesis by (rule read_story_hidden_only)
qed

text \<open>
  On the network with memory: with the reset the answer to \<open>B\<close> is that of the fresh
  network, without it the story read before changes the answer.
\<close>

theorem state_isolation_witness:
  "p_next_word (read_story parity (reset_hidden parity (read_story parity (fresh parity) [3])) [2, 2])
     = Some [0, 0, 0, 0, 1]
   \<and> p_next_word (read_story parity (fresh parity) [2, 2]) = Some [0, 0, 0, 0, 1]
   \<and> p_next_word (read_story parity (read_story parity (fresh parity) [3]) [2, 2])
     = Some [0, 1, 0, 0, 0]"
proof -
  have ne: "[2, 2 :: nat] \<noteq> []" by simp
  have f: "p_next_word (read_story parity (fresh parity) [2, 2]) = Some [0, 0, 0, 0, 1]"
    by (simp add: parity_def fresh_def)
  have l: "p_next_word (read_story parity (read_story parity (fresh parity) [3]) [2, 2])
     = Some [0, 1, 0, 0, 0]"
    by (simp add: parity_def fresh_def)
  from state_isolation[of parity "fresh parity" "[3]" "[2, 2]"] ne
  have "p_next_word (read_story parity (reset_hidden parity (read_story parity (fresh parity) [3])) [2, 2])
      = p_next_word (read_story parity (fresh parity) [2, 2])" by blast
  with f l show ?thesis by simp
qed

section \<open>Training\<close>

declare train_batches.simps [simp del]

lemma train_batches_done:
  "0 < bs \<Longrightarrow> n \<le> idx \<Longrightarrow> train_batches rnn bs n xs ys idx st losses = Inr (losses, st)"
  by (subst train_batches.simps) simp

lemma train_batches_round:
  assumes "0 < bs" and "idx < n"
    and "train_on_batch rnn (weights st) (states st) (take bs (drop idx xs)) (take bs (drop idx ys))
           = Inr (l, w', h')"
  shows "train_batches rnn bs n xs ys idx st losses =
           train_batches rnn bs n xs ys (idx + bs)
             \<lparr>weights = w', states = initial_states rnn\<rparr> (losses @ [l])"
proof -
  have "reset_states rnn (st\<lparr>weights := w', states := h'\<rparr>)
      = \<lparr>weights = w', states = initial_states rnn\<rparr>"
    by (simp add: reset_states_def)
  with assms show ?thesis by (subst train_batches.simps) simp
qed

lemma train_batches_raise:
  assumes "0 < bs" and "idx < n"
    and "train_on_batch rnn (weights st) (states st) (take bs (drop idx xs)) (take bs (drop idx ys))
           = Inl e"
  shows "train_batches rnn bs n xs ys idx st losses = Inl e"
  using assms by (subst train_batches.simps) simp

lemma train_batches_no_step: "train_batches rnn 0 n xs ys idx st losses = Inl ValueError"
  by (subst train_batches.simps) simp

lemma train_batches_agree:
  assumes init: "initial_states rnn' = initial_states rnn"
    and same: "\<forall>w h x y. h = states st \<or> h = initial_states rnn \<longrightarrow>
                 train_on_batch rnn' w h x y = train_on_batch rnn w h x y"
  shows "train_batches rnn' bs n xs ys idx st losses = train_batches rnn bs n xs ys idx st losses"
  using same
proof (induction "n - idx" arbitrary: idx st losses rule: less_induct)
  case less
  show ?case
  proof (cases "bs = 0")
    case True
    then show ?thesis by (simp add: train_batches_no_step)
  next
    case False
    then have bs: "0 < bs" by simp
    show ?thesis
    proof (cases "n \<le> idx")
      case True
      with bs show ?thesis by (simp add: train_batches_done)
    next
      case False
      then have lt: "idx < n" by simp
      let ?x = "take bs (drop idx xs)" and ?y = "take bs (drop idx ys)"
      from less.prems have eq: "train_on_batch rnn' (weights st) (states st) ?x ?y
          = train_on_batch rnn (weights st) (states st) ?x ?y" by simp
      show ?thesis
      proof (cases "train_on_batch rnn (weights st) (states st) ?x ?y")
        case (Inl e)
        with eq bs lt show ?thesis by (simp add: train_batches_raise)
      next
        case (Inr r)
        obtain l w' h' where r: "r = (l, w', h')" by (cases r)
        let ?st = "\<lparr>weights = w', states = initial_states rnn\<rparr>"
        from Inr r have a: "train_on_batch rnn (weights st) (states st) ?x ?y = Inr (l, w', h')"
          by simp
        with eq have a': "train_on_batch rnn' (weights st) (states st) ?x ?y = Inr (l, w', h')"
          by simp
        have m: "n - (idx + bs) < n - idx" using bs lt by arith
        have same': "\<forall>w h x y. h = states ?st \<or> h = initial_states rnn \<longrightarrow>
                 train_on_batch rnn' w h x y = train_on_batch rnn w h x y"
          using less.prems by simp
        from less.hyps[OF m same']
        have "train_batches rnn' bs n xs ys (idx + bs) ?st (losses @ [l])
            = train_batches rnn bs n xs ys (idx + bs) ?st (losses @ [l])" .
        then show ?thesis
          using train_batches_round[OF bs lt a] train_batches_round[OF bs lt a'] init by simp
      qed
    qed
  qed
qed

lemma train_batches_states:
  assumes "train_batches rnn bs n xs ys idx st losses = Inr (ls, st')"
  shows "st' = st \<and> n \<le> idx \<or> states st' = initial_states rnn"
  using assms
proof (induction "n - idx" arbitrary: idx st losses rule: less_induct)
  case less
  from less.prems have bs: "0 < bs" by (cases "bs = 0") (simp_all add: train_batches_no_step)
  show ?case
  proof (cases "n \<le> idx")
    case True
    with bs less.prems show ?thesis by (simp add: train_batches_done)
  next
    case False
    then have lt: "idx < n" by simp
    let ?x = "take bs (drop idx xs)" and ?y = "take bs (drop idx ys)"
    show ?thesis
    proof (cases "train_on_batch rnn (weights st) (states st) ?x ?y")
      case (Inl e)
      with bs lt less.prems show ?thesis by (simp add: train_batches_raise)
    next
      case (Inr r)
      obtain l w' h' where r: "r = (l, w', h')" by (cases r)
      let ?st = "\<lparr>weights = w', states = initial_states rnn\<rparr>"
      from Inr r have a: "train_on_batch rnn (weights st) (states st) ?x ?y = Inr (l, w', h')"
        by simp
      have m: "n - (idx + bs) < n - idx" using bs lt by arith
      from less.prems train_batches_round[OF bs lt a]
      have "train_batches rnn bs n xs ys (idx + bs) ?st (losses @ [l]) = Inr (ls, st')" by simp
      from less.hyps[OF m this] show ?thesis by auto
    qed
  qed
qed

lemma batches_left:
  assumes "0 < bs" and "idx < n"
  shows "(n - idx + bs - 1) div bs = Suc ((n - (idx + bs) + bs - 1) div bs)"
proof (cases "idx + bs \<le> n")
  case True
  define a where "a = n - (idx + bs) + bs - 1"
  have e: "n - idx + bs - 1 = a + bs" unfolding a_def using assms True by arith
  have "(n - idx + bs - 1) div bs = (a + bs) div bs" by (simp only: e)
  also have "\<dots> = Suc (a div bs)" using assms(1) by simp
  finally show ?thesis by (simp only: a_def)
next
  case False
  define d where "d = n - idx - 1"
  have e: "n - idx + bs - 1 = d + bs" unfolding d_def using assms by arith
  have small: "d < bs" unfolding d_def using assms False by arith
  have z: "n - (idx + bs) + bs - 1 = bs - 1" using False by simp
  have "(n - idx + bs - 1) div bs = (d + bs) div bs" by (simp only: e)
  also have "\<dots> = Suc (d div bs)" using assms(1) by simp
  also have "\<dots> = Suc 0" using small by simp
  finally have l: "(n - idx + bs - 1) div bs = Suc 0" .
  have "(bs - 1) div bs = 0" using assms(1) by simp
  with l z show ?thesis by simp
qed

text \<open>
  The losses of a run that returns, one by one: the \<open>k\<close>-th of them is what
  \<^verbatim>\<open>train_on_batch\<close> returns for the \<open>k\<close>-th batch, called in the state the loop has
  reached after the \<open>k\<close> batches before it.
\<close>

lemma train_batches_trace:
  assumes "train_batches rnn bs n xs ys idx st losses = Inr (res, st')"
  shows "\<exists>ls. res = losses @ ls \<and> length ls = (n - idx + bs - 1) div bs
          \<and> (\<forall>k < length ls. \<exists>st_k w' h'.
                train_batches rnn bs (idx + k * bs) xs ys idx st losses
                  = Inr (losses @ take k ls, st_k)
              \<and> train_on_batch rnn (weights st_k) (states st_k)
                  (take bs (drop (idx + k * bs) xs)) (take bs (drop (idx + k * bs) ys))
                  = Inr (ls ! k, w', h'))"
  using assms
proof (induction "n - idx" arbitrary: idx st losses rule: less_induct)
  case less
  from less.prems have bs: "0 < bs" by (cases "bs = 0") (simp_all add: train_batches_no_step)
  show ?case
  proof (cases "n \<le> idx")
    case True
    then have "(n - idx + bs - 1) div bs = 0" using bs by simp
    moreover from True bs less.prems have "res = losses @ []"
      by (simp add: train_batches_done)
    ultimately show ?thesis by (intro exI[of _ "[]"]) simp
  next
    case False
    then have lt: "idx < n" by simp
    let ?x = "take bs (drop idx xs)" and ?y = "take bs (drop idx ys)"
    show ?thesis
    proof (cases "train_on_batch rnn (weights st) (states st) ?x ?y")
      case (Inl e)
      with bs lt less.prems show ?thesis by (simp add: train_batches_raise)
    next
      case (Inr r)
      obtain l w' h' where r: "r = (l, w', h')" by (cases r)
      let ?st = "\<lparr>weights = w', states = initial_states rnn\<rparr>"
      from Inr r have a: "train_on_batch rnn (weights st) (states st) ?x ?y = Inr (l, w', h')"
        by simp
      have m: "n - (idx + bs) < n - idx" using bs lt by arith
      from less.prems train_batches_round[OF bs lt a]
      have run: "train_batches rnn bs n xs ys (idx + bs) ?st (losses @ [l]) = Inr (res, st')"
        by simp
      from less.hyps[OF m run] obtain ls1 where
        res: "res = (losses @ [l]) @ ls1"
        and len: "length ls1 = (n - (idx + bs) + bs - 1) div bs"
        and each: "\<forall>k < length ls1. \<exists>st_k w' h'.
                train_batches rnn bs (idx + bs + k * bs) xs ys (idx + bs) ?st (losses @ [l])
                  = Inr ((losses @ [l]) @ take k ls1, st_k)
              \<and> train_on_batch rnn (weights st_k) (states st_k)
                  (take bs (drop (idx + bs + k * bs) xs)) (take bs (drop (idx + bs + k * bs) ys))
                  = Inr (ls1 ! k, w', h')"
        by (elim exE conjE)
      let ?ls = "l # ls1"
      have r1: "res = losses @ ?ls" using res by simp
      have r2: "length ?ls = (n - idx + bs - 1) div bs"
        using len batches_left[OF bs lt] by simp
      have r3: "\<forall>k < length ?ls. \<exists>st_k w' h'.
                train_batches rnn bs (idx + k * bs) xs ys idx st losses
                  = Inr (losses @ take k ?ls, st_k)
              \<and> train_on_batch rnn (weights st_k) (states st_k)
                  (take bs (drop (idx + k * bs) xs)) (take bs (drop (idx + k * bs) ys))
                  = Inr (?ls ! k, w', h')"
      proof (intro allI impI)
        fix k assume k: "k < length ?ls"
        show "\<exists>st_k w' h'.
                train_batches rnn bs (idx + k * bs) xs ys idx st losses
                  = Inr (losses @ take k ?ls, st_k)
              \<and> train_on_batch rnn (weights st_k) (states st_k)
                  (take bs (drop (idx + k * bs) xs)) (take bs (drop (idx + k * bs) ys))
                  = Inr (?ls ! k, w', h')"
        proof (cases k)
          case 0
          have "train_batches rnn bs idx xs ys idx st losses = Inr (losses, st)"
            using bs by (simp add: train_batches_done)
          with a 0 show ?thesis by simp
        next
          case (Suc j)
          with k have j: "j < length ls1" by simp
          from each[rule_format, OF j] obtain st_k w'' h'' where
            p: "train_batches rnn bs (idx + bs + j * bs) xs ys (idx + bs) ?st (losses @ [l])
                  = Inr ((losses @ [l]) @ take j ls1, st_k)"
            and q: "train_on_batch rnn (weights st_k) (states st_k)
                  (take bs (drop (idx + bs + j * bs) xs)) (take bs (drop (idx + bs + j * bs) ys))
                  = Inr (ls1 ! j, w'', h'')"
            by (elim exE conjE)
          have e: "idx + k * bs = idx + bs + j * bs" using Suc by simp
          have lt2: "idx < idx + bs + j * bs" using bs by simp
          have t: "losses @ take k ?ls = (losses @ [l]) @ take j ls1" using Suc by simp
          have n: "?ls ! k = ls1 ! j" using Suc by simp
          from train_batches_round[OF bs lt2 a]
          have "train_batches rnn bs (idx + bs + j * bs) xs ys idx st losses
              = Inr ((losses @ [l]) @ take j ls1, st_k)" using p by simp
          then have "train_batches rnn bs (idx + k * bs) xs ys idx st losses
              = Inr (losses @ take k ?ls, st_k)" by (simp only: e t)
          moreover have "train_on_batch rnn (weights st_k) (states st_k)
                  (take bs (drop (idx + k * bs) xs)) (take bs (drop (idx + k * bs) ys))
                  = Inr (?ls ! k, w'', h'')" using q by (simp only: e n)
          ultimately show ?thesis by blast
        qed
      qed
      from r1 r2 r3 show ?thesis by blast
    qed
  qed
qed

text \<open>
  A run that raises: either the step of \<open>range\<close> is 0, or \<^verbatim>\<open>train_on_batch\<close> raised
  on one of the batches, in the state the loop had reached after the batches before it.
\<close>

lemma train_batches_abort:
  assumes "train_batches rnn bs n xs ys idx st losses = Inl e"
  shows "bs = 0 \<and> e = ValueError
       \<or> (\<exists>k ls st_k. idx + k * bs < n
            \<and> train_batches rnn bs (idx + k * bs) xs ys idx st losses = Inr (losses @ ls, st_k)
            \<and> train_on_batch rnn (weights st_k) (states st_k)
                (take bs (drop (idx + k * bs) xs)) (take bs (drop (idx + k * bs) ys)) = Inl e)"
  using assms
proof (induction "n - idx" arbitrary: idx st losses rule: less_induct)
  case less
  show ?case
  proof (cases "bs = 0")
    case True
    with less.prems show ?thesis by (simp add: train_batches_no_step)
  next
    case False
    then have bs: "0 < bs" by simp
    show ?thesis
    proof (cases "n \<le> idx")
      case True
      with bs less.prems show ?thesis by (simp add: train_batches_done)
    next
      case False
      then have lt: "idx < n" by simp
      let ?x = "take bs (drop idx xs)" and ?y = "take bs (drop idx ys)"
      have here: "train_batches rnn bs idx xs ys idx st losses = Inr (losses @ [], st)"
        using bs by (simp add: train_batches_done)
      show ?thesis
      proof (cases "train_on_batch rnn (weights st) (states st) ?x ?y")
        case (Inl e')
        with bs lt less.prems have "e' = e" by (simp add: train_batches_raise)
        with Inl have "train_on_batch rnn (weights st) (states st)
            (take bs (drop (idx + 0 * bs) xs)) (take bs (drop (idx + 0 * bs) ys)) = Inl e"
          by simp
        moreover have "idx + 0 * bs < n" using lt by simp
        moreover have "train_batches rnn bs (idx + 0 * bs) xs ys idx st losses
            = Inr (losses @ [], st)" using here by simp
        ultimately show ?thesis by blast
      next
        case (Inr r)
        obtain l w' h' where r: "r = (l, w', h')" by (cases r)
        let ?st = "\<lparr>weights = w', states = initial_states rnn\<rparr>"
        from Inr r have a: "train_on_batch rnn (weights st) (states st) ?x ?y = Inr (l, w', h')"
          by simp
        have m: "n - (idx + bs) < n - idx" using bs lt by arith
        from less.prems train_batches_round[OF bs lt a]
        have run: "train_batches rnn bs n xs ys (idx + bs) ?st (losses @ [l]) = Inl e" by simp
        from less.hyps[OF m run] bs obtain j ls1 st_k where
          j: "idx + bs + j * bs < n"
          and p: "train_batches rnn bs (idx + bs + j * bs) xs ys (idx + bs) ?st (losses @ [l])
                = Inr ((losses @ [l]) @ ls1, st_k)"
          and q: "train_on_batch rnn (weights st_k) (states st_k)
                (take bs (drop (idx + bs + j * bs) xs)) (take bs (drop (idx + bs + j * bs) ys))
                = Inl e"
          by auto
        have e: "idx + Suc j * bs = idx + bs + j * bs" by simp
        have lt2: "idx < idx + bs + j * bs" using bs by simp
        have t: "losses @ (l # ls1) = (losses @ [l]) @ ls1" by simp
        from train_batches_round[OF bs lt2 a]
        have "train_batches rnn bs (idx + bs + j * bs) xs ys idx st losses
            = Inr ((losses @ [l]) @ ls1, st_k)" using p by simp
        then have "train_batches rnn bs (idx + Suc j * bs) xs ys idx st losses
            = Inr (losses @ (l # ls1), st_k)" by (simp only: e t)
        moreover have "idx + Suc j * bs < n" using j by (simp only: e)
        moreover have "train_on_batch rnn (weights st_k) (states st_k)
                (take bs (drop (idx + Suc j * bs) xs)) (take bs (drop (idx + Suc j * bs) ys))
                = Inl e" using q by (simp only: e)
        ultimately show ?thesis by blast
      qed
    qed
  qed
qed

lemma numpy_mean_non_finite:
  "NonFinite \<in> set losses \<Longrightarrow> numpy_mean float_mean losses = NonFinite"
  by (simp add: numpy_mean_def)

lemma train_epoch_Inr:
  "train_epoch fm rnn bs n xs ys st = Inr (m, ls, st') \<longleftrightarrow>
   train_batches rnn bs n xs ys 0 st [] = Inr (ls, st') \<and> m = numpy_mean fm ls"
  by (auto simp: train_epoch_def split: sum.splits)

lemma train_epoch_Inl:
  "train_epoch fm rnn bs n xs ys st = Inl e \<longleftrightarrow> train_batches rnn bs n xs ys 0 st [] = Inl e"
  by (auto simp: train_epoch_def split: sum.splits)

text \<open>
  C3, as stated, fails in its conclusion. The hidden state is reset, but the weights are
  not: they are what training changes. On a network whose loss is its current weights
  and whose new weights are the sum of the batch, two epochs with the same second batch
  \<open>2\<close> and first batches \<open>1\<close> and \<open>7\<close> give the second batch the losses 1 and 7.
\<close>

theorem later_batch_depends_on_earlier_batch:
  "train_epoch exact_mean remembering 1 2 [[1], [2]] [[2], [3]] \<lparr>weights = 0, states = ()\<rparr>
     = Inr (Finite (1 / 2), [Finite 0, Finite 1], \<lparr>weights = 2, states = ()\<rparr>)
   \<and> train_epoch exact_mean remembering 1 2 [[7], [2]] [[2], [3]] \<lparr>weights = 0, states = ()\<rparr>
     = Inr (Finite (7 / 2), [Finite 0, Finite 7], \<lparr>weights = 2, states = ()\<rparr>)"
proof -
  have a: "train_epoch exact_mean remembering 1 2 [[1], [2]] [[2], [3]] \<lparr>weights = 0, states = ()\<rparr>
     = Inr (Finite (1 / 2), [Finite 0, Finite 1], \<lparr>weights = 2, states = ()\<rparr>)"
    by (simp add: train_epoch_def train_batches.simps remembering_def reset_states_def
        numpy_mean_def exact_mean_def)
  have b: "train_epoch exact_mean remembering 1 2 [[7], [2]] [[2], [3]] \<lparr>weights = 0, states = ()\<rparr>
     = Inr (Finite (7 / 2), [Finite 0, Finite 7], \<lparr>weights = 2, states = ()\<rparr>)"
    by (simp add: train_epoch_def train_batches.simps remembering_def reset_states_def
        numpy_mean_def exact_mean_def)
  from a b show ?thesis by blast
qed

text \<open>
  C3, amended. After every batch the hidden state is put back to the initial one before
  the next batch is trained, whatever the batch returned. So an epoch calls
  \<^verbatim>\<open>train_on_batch\<close> only at the hidden state it starts with (for the first batch) and
  at the initial hidden state (for every later batch): two networks that agree at these
  two states give the same epoch, however they differ at the states a batch may leave
  behind. An epoch with at least one story ends in the initial hidden state, and every
  loss after the first is what \<^verbatim>\<open>train_on_batch\<close> returns for its batch from the
  initial hidden state. A later batch depends on an earlier one through the trained
  weights only, never through the hidden state.
\<close>

theorem batches_start_from_reset_state:
  "(initial_states rnn' = initial_states rnn
     \<and> (\<forall>w h x y. h = states st \<or> h = initial_states rnn \<longrightarrow>
           train_on_batch rnn' w h x y = train_on_batch rnn w h x y)
    \<longrightarrow> train_epoch fm rnn' bs n xs ys st = train_epoch fm rnn bs n xs ys st)
 \<and> (train_epoch fm rnn bs n xs ys st = Inr (m, ls, st') \<and> 0 < n
    \<longrightarrow> states st' = initial_states rnn)
 \<and> (train_epoch fm rnn bs n xs ys st = Inr (m, ls, st')
    \<longrightarrow> (\<forall>k < length ls. 0 < k \<longrightarrow>
          (\<exists>w w' h'. train_on_batch rnn w (initial_states rnn)
              (take bs (drop (k * bs) xs)) (take bs (drop (k * bs) ys)) = Inr (ls ! k, w', h'))))"
proof (intro conjI impI allI)
  assume "initial_states rnn' = initial_states rnn
     \<and> (\<forall>w h x y. h = states st \<or> h = initial_states rnn \<longrightarrow>
           train_on_batch rnn' w h x y = train_on_batch rnn w h x y)"
  then have "train_batches rnn' bs n xs ys 0 st [] = train_batches rnn bs n xs ys 0 st []"
    using train_batches_agree[of rnn' rnn st bs n xs ys 0 "[]"] by blast
  then show "train_epoch fm rnn' bs n xs ys st = train_epoch fm rnn bs n xs ys st"
    by (simp add: train_epoch_def)
next
  assume a: "train_epoch fm rnn bs n xs ys st = Inr (m, ls, st') \<and> 0 < n"
  then have "train_batches rnn bs n xs ys 0 st [] = Inr (ls, st')"
    by (simp add: train_epoch_Inr)
  from train_batches_states[OF this] a show "states st' = initial_states rnn" by simp
next
  fix k
  assume a: "train_epoch fm rnn bs n xs ys st = Inr (m, ls, st')"
    and k: "k < length ls" and pos: "0 < k"
  from a have run: "train_batches rnn bs n xs ys 0 st [] = Inr (ls, st')"
    by (simp add: train_epoch_Inr)
  then have bs: "0 < bs" by (cases "bs = 0") (simp_all add: train_batches_no_step)
  from train_batches_trace[OF run] k obtain st_k w' h' where
    p: "train_batches rnn bs (k * bs) xs ys 0 st [] = Inr (take k ls, st_k)"
    and q: "train_on_batch rnn (weights st_k) (states st_k)
        (take bs (drop (k * bs) xs)) (take bs (drop (k * bs) ys)) = Inr (ls ! k, w', h')"
    by auto
  from train_batches_states[OF p] bs pos have "states st_k = initial_states rnn" by simp
  with q show "\<exists>w w' h'. train_on_batch rnn w (initial_states rnn)
      (take bs (drop (k * bs) xs)) (take bs (drop (k * bs) ys)) = Inr (ls ! k, w', h')"
    by metis
qed

text \<open>
  Two networks whose loss is 0 from the initial hidden state and differs from any other:
  every batch leaves a hidden state other than the initial one, and still all three
  losses of the epoch are 0 for both.
\<close>

theorem batches_start_from_reset_state_witness:
  "train_epoch exact_mean (leaky 99) 1 3 [[1], [2], [3]] [[4], [5], [6]] \<lparr>weights = 0, states = 0\<rparr>
     = train_epoch exact_mean (leaky 0) 1 3 [[1], [2], [3]] [[4], [5], [6]] \<lparr>weights = 0, states = 0\<rparr>
   \<and> train_epoch exact_mean (leaky 99) 1 3 [[1], [2], [3]] [[4], [5], [6]] \<lparr>weights = 0, states = 0\<rparr>
     = Inr (Finite 0, [Finite 0, Finite 0, Finite 0], \<lparr>weights = 3, states = 0\<rparr>)
   \<and> train_on_batch (leaky 99) 0 5 [[1]] [[4]] \<noteq> train_on_batch (leaky 0) 0 5 [[1]] [[4]]
   \<and> (\<exists>w w' h'. train_on_batch (leaky 0) w 0 [[2]] [[5]] = Inr (Finite 0, w', h'))"
proof -
  let ?st = "\<lparr>weights = 0 :: nat, states = 0 :: nat\<rparr>"
  let ?xs = "[[1], [2], [3]] :: matrix" and ?ys = "[[4], [5], [6]] :: matrix"
  let ?ls = "[Finite 0, Finite 0, Finite 0]"
  let ?end = "\<lparr>weights = 3 :: nat, states = 0 :: nat\<rparr>"
  have a: "initial_states (leaky 99) = initial_states (leaky 0)
     \<and> (\<forall>w h x y. h = states ?st \<or> h = initial_states (leaky 0) \<longrightarrow>
           train_on_batch (leaky 99) w h x y = train_on_batch (leaky 0) w h x y)"
    by (simp add: leaky_def)
  have run: "train_epoch exact_mean (leaky 0) 1 3 ?xs ?ys ?st = Inr (Finite 0, ?ls, ?end)"
    by (simp add: train_epoch_def train_batches.simps leaky_def reset_states_def numpy_mean_def
        exact_mean_def)
  note inst = batches_start_from_reset_state[of "leaky 99" "leaky 0" ?st exact_mean 1 3 ?xs ?ys
      "Finite 0" ?ls ?end]
  from inst a have eq: "train_epoch exact_mean (leaky 99) 1 3 ?xs ?ys ?st
      = train_epoch exact_mean (leaky 0) 1 3 ?xs ?ys ?st"
    by blast
  have three: "(0::nat) < 3" by simp
  from inst run three have "states ?end = initial_states (leaky 0)" by blast
  from inst run have later: "\<forall>k < length ?ls. 0 < k \<longrightarrow>
      (\<exists>w w' h'. train_on_batch (leaky 0) w (initial_states (leaky 0))
          (take 1 (drop (k * 1) ?xs)) (take 1 (drop (k * 1) ?ys)) = Inr (?ls ! k, w', h'))"
    by blast
  have k1: "(1::nat) < length ?ls" and p1: "(0::nat) < 1" by simp_all
  from later[rule_format, OF k1 p1]
  have second: "\<exists>w w' h'. train_on_batch (leaky 0) w 0 [[2]] [[5]] = Inr (Finite 0, w', h')"
    by (simp add: leaky_def)
  have d: "train_on_batch (leaky 99) 0 5 [[1]] [[4]] \<noteq> train_on_batch (leaky 0) 0 5 [[1]] [[4]]"
    by (simp add: leaky_def)
  from eq run d second show ?thesis by simp
qed

text \<open>
  C5, as stated, fails. Three batches of one story each, the loss of the second is NaN:
  the epoch trains on the third batch all the same (three losses, three updates of the
  weights) and reports the mean of all three losses, which is not finite.
\<close>

theorem non_finite_loss_is_averaged:
  "train_epoch exact_mean (nan_on [[2]]) 1 3 [[1], [2], [3]] [[4], [5], [6]]
      \<lparr>weights = 0, states = ()\<rparr>
     = Inr (NonFinite, [Finite 1, NonFinite, Finite 1], \<lparr>weights = 3, states = ()\<rparr>)"
  by (simp add: train_epoch_def train_batches.simps nan_on_def reset_states_def numpy_mean_def)

text \<open>
  C5, amended. The loop never looks at a loss, so a loss that is not finite neither ends
  the epoch nor is reported as an error. When \<^verbatim>\<open>train_on_batch\<close> raises on none of the
  batches of the epoch, the epoch returns. When the epoch returns, it has one loss for
  each of its \<open>ceil(n / batch_size)\<close> batches, the \<open>k\<close>-th of them is the loss
  \<^verbatim>\<open>train_on_batch\<close> returned for the \<open>k\<close>-th batch, finite or not, from the state
  reached after the \<open>k\<close> batches before it, the mean reported is \<^verbatim>\<open>numpy.mean\<close> of
  exactly these losses, and it is not finite as soon as one of them is not. When the
  epoch raises, then the step of \<open>range\<close> is 0 or \<^verbatim>\<open>train_on_batch\<close> itself raised
  that exception on one of the batches.
\<close>

theorem epoch_runs_through_non_finite_loss:
  "(0 < bs \<and> (\<forall>w h k. k * bs < n \<and> (h = states st \<or> h = initial_states rnn) \<longrightarrow>
        (\<exists>r. train_on_batch rnn w h (take bs (drop (k * bs) xs)) (take bs (drop (k * bs) ys))
              = Inr r))
    \<longrightarrow> (\<exists>ls st'. train_epoch fm rnn bs n xs ys st = Inr (numpy_mean fm ls, ls, st')))
 \<and> (train_epoch fm rnn bs n xs ys st = Inr (m, ls, st')
    \<longrightarrow> m = numpy_mean fm ls \<and> length ls = (n + bs - 1) div bs
      \<and> (\<forall>k < length ls. \<exists>st_k w' h'.
            train_batches rnn bs (k * bs) xs ys 0 st [] = Inr (take k ls, st_k)
          \<and> train_on_batch rnn (weights st_k) (states st_k)
              (take bs (drop (k * bs) xs)) (take bs (drop (k * bs) ys)) = Inr (ls ! k, w', h'))
      \<and> (NonFinite \<in> set ls \<longrightarrow> m = NonFinite))
 \<and> (train_epoch fm rnn bs n xs ys st = Inl e
    \<longrightarrow> bs = 0 \<and> e = ValueError
      \<or> (\<exists>k ls st_k. k * bs < n
            \<and> train_batches rnn bs (k * bs) xs ys 0 st [] = Inr (ls, st_k)
            \<and> train_on_batch rnn (weights st_k) (states st_k)
                (take bs (drop (k * bs) xs)) (take bs (drop (k * bs) ys)) = Inl e))"
proof (intro conjI)
  show "0 < bs \<and> (\<forall>w h k. k * bs < n \<and> (h = states st \<or> h = initial_states rnn) \<longrightarrow>
        (\<exists>r. train_on_batch rnn w h (take bs (drop (k * bs) xs)) (take bs (drop (k * bs) ys))
              = Inr r))
    \<longrightarrow> (\<exists>ls st'. train_epoch fm rnn bs n xs ys st = Inr (numpy_mean fm ls, ls, st'))"
  proof
    assume h: "0 < bs \<and> (\<forall>w h k. k * bs < n \<and> (h = states st \<or> h = initial_states rnn) \<longrightarrow>
        (\<exists>r. train_on_batch rnn w h (take bs (drop (k * bs) xs)) (take bs (drop (k * bs) ys))
              = Inr r))"
    show "\<exists>ls st'. train_epoch fm rnn bs n xs ys st = Inr (numpy_mean fm ls, ls, st')"
    proof (cases "train_batches rnn bs n xs ys 0 st []")
      case (Inr r)
      obtain ls st' where "r = (ls, st')" by (cases r)
      with Inr have "train_epoch fm rnn bs n xs ys st = Inr (numpy_mean fm ls, ls, st')"
        by (simp add: train_epoch_Inr)
      then show ?thesis by blast
    next
      case (Inl e)
      from train_batches_abort[OF Inl] h obtain k ls st_k where
        k: "k * bs < n"
        and p: "train_batches rnn bs (k * bs) xs ys 0 st [] = Inr (ls, st_k)"
        and q: "train_on_batch rnn (weights st_k) (states st_k)
                (take bs (drop (k * bs) xs)) (take bs (drop (k * bs) ys)) = Inl e"
        by auto
      from train_batches_states[OF p] have "states st_k = states st \<or> states st_k = initial_states rnn"
        by auto
      with h k obtain r where "train_on_batch rnn (weights st_k) (states st_k)
                (take bs (drop (k * bs) xs)) (take bs (drop (k * bs) ys)) = Inr r"
        by blast
      with q show ?thesis by simp
    qed
  qed
next
  show "train_epoch fm rnn bs n xs ys st = Inr (m, ls, st')
    \<longrightarrow> m = numpy_mean fm ls \<and> length ls = (n + bs - 1) div bs
      \<and> (\<forall>k < length ls. \<exists>st_k w' h'.
            train_batches rnn bs (k * bs) xs ys 0 st [] = Inr (take k ls, st_k)
          \<and> train_on_batch rnn (weights st_k) (states st_k)
              (take bs (drop (k * bs) xs)) (take bs (drop (k * bs) ys)) = Inr (ls ! k, w', h'))
      \<and> (NonFinite \<in> set ls \<longrightarrow> m = NonFinite)"
  proof
    assume "train_epoch fm rnn bs n xs ys st = Inr (m, ls, st')"
    then have run: "train_batches rnn bs n xs ys 0 st [] = Inr (ls, st')"
      and m: "m = numpy_mean fm ls" by (simp_all add: train_epoch_Inr)
    from train_batches_trace[OF run] have
      len: "length ls = (n + bs - 1) div bs"
      and each: "\<forall>k < length ls. \<exists>st_k w' h'.
            train_batches rnn bs (k * bs) xs ys 0 st [] = Inr (take k ls, st_k)
          \<and> train_on_batch rnn (weights st_k) (states st_k)
              (take bs (drop (k * bs) xs)) (take bs (drop (k * bs) ys)) = Inr (ls ! k, w', h')"
      by auto
    have "NonFinite \<in> set ls \<longrightarrow> m = NonFinite"
      using m by (simp add: numpy_mean_non_finite)
    with m len each show "m = numpy_mean fm ls \<and> length ls = (n + bs - 1) div bs
      \<and> (\<forall>k < length ls. \<exists>st_k w' h'.
            train_batches rnn bs (k * bs) xs ys 0 st [] = Inr (take k ls, st_k)
          \<and> train_on_batch rnn (weights st_k) (states st_k)
              (take bs (drop (k * bs) xs)) (take bs (drop (k * bs) ys)) = Inr (ls ! k, w', h'))
      \<and> (NonFinite \<in> set ls \<longrightarrow> m = NonFinite)" by blast
  qed
next
  show "train_epoch fm rnn bs n xs ys st = Inl e
    \<longrightarrow> bs = 0 \<and> e = ValueError
      \<or> (\<exists>k ls st_k. k * bs < n
            \<and> train_batches rnn bs (k * bs) xs ys 0 st [] = Inr (ls, st_k)
            \<and> train_on_batch rnn (weights st_k) (states st_k)
                (take bs (drop (k * bs) xs)) (take bs (drop (k * bs) ys)) = Inl e)"
  proof
    assume "train_epoch fm rnn bs n xs ys st = Inl e"
    then have "train_batches rnn bs n xs ys 0 st [] = Inl e" by (simp add: train_epoch_Inl)
    from train_batches_abort[OF this] show "bs = 0 \<and> e = ValueError
      \<or> (\<exists>k ls st_k. k * bs < n
            \<and> train_batches rnn bs (k * bs) xs ys 0 st [] = Inr (ls, st_k)
            \<and> train_on_batch rnn (weights st_k) (states st_k)
                (take bs (drop (k * bs) xs)) (take bs (drop (k * bs) ys)) = Inl e)"
      by simp
  qed
qed

text \<open>
  Three stories in batches of one, with NaN as the loss of the second batch: the epoch
  returns, its second loss is the NaN that \<^verbatim>\<open>train_on_batch\<close> returned for the batch
  \<open>2\<close>, and the mean is not finite. Three stories in batches of two on a network built
  for batches of two rows: the epoch raises the ValueError that \<^verbatim>\<open>train_on_batch\<close>
  raised on the second batch, which has one row.
\<close>

theorem epoch_runs_through_non_finite_loss_witness:
  "(\<exists>ls st'. train_epoch exact_mean (nan_on [[2]]) 1 3 [[1], [2], [3]] [[4], [5], [6]]
        \<lparr>weights = 0, states = ()\<rparr> = Inr (numpy_mean exact_mean ls, ls, st'))
   \<and> train_epoch exact_mean (nan_on [[2]]) 1 3 [[1], [2], [3]] [[4], [5], [6]]
        \<lparr>weights = 0, states = ()\<rparr>
      = Inr (NonFinite, [Finite 1, NonFinite, Finite 1], \<lparr>weights = 3, states = ()\<rparr>)
   \<and> (\<exists>st_k w' h'. train_batches (nan_on [[2]]) 1 1 [[1], [2], [3]] [[4], [5], [6]] 0
          \<lparr>weights = 0, states = ()\<rparr> [] = Inr ([Finite 1], st_k)
        \<and> train_on_batch (nan_on [[2]]) (weights st_k) (states st_k) [[2]] [[5]]
          = Inr (NonFinite, w', h'))
   \<and> train_epoch exact_mean (strict_rows 2) 2 3 [[1], [2], [3]] [[4], [5], [6]]
        \<lparr>weights = 0, states = ()\<rparr> = Inl ValueError
   \<and> (\<exists>k ls st_k. k * 2 < 3
        \<and> train_batches (strict_rows 2) 2 (k * 2) [[1], [2], [3]] [[4], [5], [6]] 0
             \<lparr>weights = 0, states = ()\<rparr> [] = Inr (ls, st_k)
        \<and> train_on_batch (strict_rows 2) (weights st_k) (states st_k)
             (take 2 (drop (k * 2) [[1], [2], [3]])) (take 2 (drop (k * 2) [[4], [5], [6]]))
           = Inl ValueError)"
proof -
  let ?xs = "[[1], [2], [3]] :: matrix" and ?ys = "[[4], [5], [6]] :: matrix"
  let ?st = "\<lparr>weights = 0 :: nat, states = ()\<rparr>"
  let ?ls = "[Finite 1, NonFinite, Finite 1]"
  let ?end = "\<lparr>weights = 3 :: nat, states = ()\<rparr>"
  note nan = epoch_runs_through_non_finite_loss[of 1 3 ?st "nan_on [[2]]" ?xs ?ys exact_mean
      NonFinite ?ls ?end ValueError]
  note strict = epoch_runs_through_non_finite_loss[of 2 3 ?st "strict_rows 2" ?xs ?ys exact_mean
      NonFinite ?ls ?end ValueError]
  have total: "0 < (1::nat) \<and> (\<forall>w h k. k * 1 < (3::nat)
        \<and> (h = states ?st \<or> h = initial_states (nan_on [[2]])) \<longrightarrow>
        (\<exists>r. train_on_batch (nan_on [[2]]) w h (take 1 (drop (k * 1) ?xs))
              (take 1 (drop (k * 1) ?ys)) = Inr r))"
    by (simp add: nan_on_def)
  from nan total have r1: "\<exists>ls st'. train_epoch exact_mean (nan_on [[2]]) 1 3 ?xs ?ys ?st
      = Inr (numpy_mean exact_mean ls, ls, st')" by blast
  have run: "train_epoch exact_mean (nan_on [[2]]) 1 3 ?xs ?ys ?st = Inr (NonFinite, ?ls, ?end)"
    by (simp add: train_epoch_def train_batches.simps nan_on_def reset_states_def numpy_mean_def)
  from nan run have each: "\<forall>k < length ?ls. \<exists>st_k w' h'.
            train_batches (nan_on [[2]]) 1 (k * 1) ?xs ?ys 0 ?st [] = Inr (take k ?ls, st_k)
          \<and> train_on_batch (nan_on [[2]]) (weights st_k) (states st_k)
              (take 1 (drop (k * 1) ?xs)) (take 1 (drop (k * 1) ?ys)) = Inr (?ls ! k, w', h')"
    by blast
  have k1: "(1::nat) < length ?ls" by simp
  from each[rule_format, OF k1]
  have r3: "\<exists>st_k w' h'. train_batches (nan_on [[2]]) 1 1 ?xs ?ys 0 ?st [] = Inr ([Finite 1], st_k)
        \<and> train_on_batch (nan_on [[2]]) (weights st_k) (states st_k) [[2]] [[5]]
          = Inr (NonFinite, w', h')"
    by simp
  have fail: "train_epoch exact_mean (strict_rows 2) 2 3 ?xs ?ys ?st = Inl ValueError"
    by (simp add: train_epoch_def train_batches.simps strict_rows_def reset_states_def)
  have "(2::nat) \<noteq> 0" by simp
  with strict fail have r5: "\<exists>k ls st_k. k * 2 < 3
        \<and> train_batches (strict_rows 2) 2 (k * 2) ?xs ?ys 0 ?st [] = Inr (ls, st_k)
        \<and> train_on_batch (strict_rows 2) (weights st_k) (states st_k)
             (take 2 (drop (k * 2) ?xs)) (take 2 (drop (k * 2) ?ys)) = Inl ValueError"
    by blast
  from r1 run r3 fail r5 show ?thesis by blast
qed

end
